theory Spec2Isabelle
  imports Complex_Main "HOL-Library.Multiset"
begin

section \<open>Data model\<close>

text \<open>
  The engine of \<^verbatim>\<open>gameLogic.ts\<close> works on a grid of cells. A cell's content is either
  the mine marker or a number; row and column indices are integers that may be negative
  or too large, so they are \<^typ>\<open>int\<close> and every array access spells out what
  happens out of range. Numbers that are not integers are left out. The fields of
  \<open>GameConfig\<close> are \<^verbatim>\<open>rows\<close>, \<^verbatim>\<open>cols\<close> and \<^verbatim>\<open>mineCount\<close> in the program; they carry a prefix
  here because the functions below have parameters of these names.
\<close>

datatype CellContent = Mine | Count int

record CellState =
  content :: CellContent
  isRevealed :: bool
  isFlagged :: bool

type_synonym Board = "CellState list list"

type_synonym Position = "int \<times> int"

record GameConfig =
  cfgRows :: int
  cfgCols :: int
  cfgMineCount :: int

text \<open>
  A board value of the program is a reference to an array object. The store maps every
  reference to the grid it currently denotes; \<open>nextRef\<close> is the first reference that
  has not been handed out. The copies made by the program
  (\<^verbatim>\<open>board.map(r => r.map(cell => ({ ...cell })))\<close>) build new row arrays and new cell
  objects, so a copy shares nothing with its original and one reference per grid is
  enough.
\<close>

type_synonym ref = nat

record store =
  boards :: "ref \<Rightarrow> Board"
  nextRef :: ref

definition alloc :: "store \<Rightarrow> Board \<Rightarrow> store \<times> ref" where
  "alloc s b = (\<lparr>boards = (boards s)(nextRef s := b), nextRef = Suc (nextRef s)\<rparr>, nextRef s)"

definition modify :: "store \<Rightarrow> ref \<Rightarrow> (Board \<Rightarrow> Board) \<Rightarrow> store" where
  "modify s r f = \<lparr>boards = (boards s)(r := f (boards s r)), nextRef = nextRef s\<rparr>"

text \<open>
  \<open>cellAt board row col\<close> is the JavaScript expression \<^verbatim>\<open>board[row][col]\<close>: \<open>None\<close>
  stands for the cases in which JavaScript yields \<^verbatim>\<open>undefined\<close> (or already fails on
  \<^verbatim>\<open>board[row]\<close>), after which reading a field of the result throws a TypeError.
  \<open>updateCell\<close> is an assignment to a field of \<^verbatim>\<open>board[row][col]\<close>; the program only
  assigns after it has read the same cell, so the branch for a missing cell is never
  reached.
\<close>

definition cellAt :: "Board \<Rightarrow> int \<Rightarrow> int \<Rightarrow> CellState option" where
  "cellAt board row col =
     (if 0 \<le> row \<and> nat row < length board \<and> 0 \<le> col \<and> nat col < length (board ! nat row)
      then Some (board ! nat row ! nat col) else None)"

definition updateCell :: "Board \<Rightarrow> int \<Rightarrow> int \<Rightarrow> (CellState \<Rightarrow> CellState) \<Rightarrow> Board" where
  "updateCell board row col f =
     (if 0 \<le> row \<and> nat row < length board \<and> 0 \<le> col \<and> nat col < length (board ! nat row)
      then board[nat row := (board ! nat row)[nat col := f (board ! nat row ! nat col)]]
      else board)"

section \<open>Geometry\<close>

definition isValidPosition :: "int \<Rightarrow> int \<Rightarrow> int \<Rightarrow> int \<Rightarrow> bool" where
  "isValidPosition row col rows cols \<longleftrightarrow> row \<ge> 0 \<and> row < rows \<and> col \<ge> 0 \<and> col < cols"

definition directions :: "(int \<times> int) list" where
  "directions = [(-1, -1), (-1, 0), (-1, 1), (0, -1), (0, 1), (1, -1), (1, 0), (1, 1)]"

definition getNeighbors :: "int \<Rightarrow> int \<Rightarrow> int \<Rightarrow> int \<Rightarrow> Position list" where
  "getNeighbors row col rows cols =
     [(row + dr, col + dc). (dr, dc) \<leftarrow> directions, isValidPosition (row + dr) (col + dc) rows cols]"


section \<open>Mine placement\<close>

text \<open>
  \<^verbatim>\<open>Math.random()\<close> returns a number in the half-open unit interval; the type
  \<open>random01\<close> holds exactly these values. The products and the floor of the shuffle are
  taken in the reals. The random source is the sequence \<open>rnd 0\<close>, \<open>rnd 1\<close>, ... of the
  values that successive calls return.
\<close>

typedef random01 = "{x::real. 0 \<le> x \<and> x < 1}"
  morphisms realOf Abs_random01
  by (rule exI [of _ 0]) simp

setup_lifting type_definition_random01

lift_definition zeroDraw :: random01 is "0"
  by simp

lift_definition halfDraw :: random01 is "1 / 2"
  by simp

text \<open>
  The Fisher-Yates loop \<^verbatim>\<open>for (let i = allPositions.length - 1; i > 0; i--)\<close>. The
  argument \<open>k\<close> counts the calls of \<^verbatim>\<open>Math.random\<close> made so far. The destructuring swap
  reads both elements and then writes index \<open>i\<close> before index \<open>j\<close>.
\<close>

fun shuffleLoop :: "(nat \<Rightarrow> random01) \<Rightarrow> nat \<Rightarrow> nat \<Rightarrow> Position list \<Rightarrow> Position list" where
  "shuffleLoop rnd k 0 allPositions = allPositions"
| "shuffleLoop rnd k (Suc i') allPositions =
     (let i = Suc i';
          j = nat \<lfloor>realOf (rnd k) * real (i + 1)\<rfloor>
      in shuffleLoop rnd (Suc k) i' (allPositions[i := allPositions ! j, j := allPositions ! i]))"

text \<open>
  \<^verbatim>\<open>xs.slice(0, end)\<close>: a negative \<open>end\<close> counts from the end of the array, and the
  result is empty when it still falls before the start.
\<close>

definition slice0 :: "'a list \<Rightarrow> int \<Rightarrow> 'a list" where
  "slice0 xs end =
     (let len = int (length xs);
          k = (if end < 0 then max (len + end) 0 else min end len)
      in take (nat k) xs)"

text \<open>
  The \<^verbatim>\<open>Set<string>\<close> of keys \<^verbatim>\<open>`${row},${col}`\<close> is a duplicate-free list of positions:
  two integer pairs have the same key only if they are equal. \<open>List.insert\<close> adds an
  element unless it is present, as \<^verbatim>\<open>Set.add\<close> does; the size of the set is the length of
  the list. When the list is empty (\<open>length allPositions - 1\<close> is then \<open>0\<close> on the naturals
  and \<open>-1\<close> in the program) the shuffle loop does not run in either.
\<close>

definition excludedSetOf :: "int \<Rightarrow> int \<Rightarrow> Position option \<Rightarrow> Position list" where
  "excludedSetOf rows cols excludePosition =
     (case excludePosition of
        None \<Rightarrow> []
      | Some (erow, ecol) \<Rightarrow> fold List.insert (getNeighbors erow ecol rows cols) [(erow, ecol)])"

definition generateMinePositions ::
  "(nat \<Rightarrow> random01) \<Rightarrow> int \<Rightarrow> int \<Rightarrow> int \<Rightarrow> Position option \<Rightarrow> Position list" where
  "generateMinePositions rnd rows cols mineCount excludePosition =
     (let totalCells = rows * cols;
          excludedSet = excludedSetOf rows cols excludePosition;
          availableCells = totalCells - int (length excludedSet);
          actualMineCount = min mineCount availableCells;
          allPositions = [(row, col). row \<leftarrow> [0..rows - 1], col \<leftarrow> [0..cols - 1],
                                       (row, col) \<notin> set excludedSet];
          shuffled = shuffleLoop rnd 0 (length allPositions - 1) allPositions
      in slice0 shuffled actualMineCount)"

text \<open>
  \<open>placeMines\<close> copies the board and then writes the mine marker at each position in
  turn; \<^verbatim>\<open>newBoard[row][col].content = 'mine'\<close> throws a TypeError when the cell does not
  exist.
\<close>

fun placeMinesLoop :: "store \<Rightarrow> ref \<Rightarrow> Position list \<Rightarrow> store option" where
  "placeMinesLoop s newBoard [] = Some s"
| "placeMinesLoop s newBoard ((row, col) # rest) =
     (case cellAt (boards s newBoard) row col of
        None \<Rightarrow> None
      | Some _ \<Rightarrow>
          placeMinesLoop
            (modify s newBoard (\<lambda>b. updateCell b row col (\<lambda>cell. cell\<lparr>content := Mine\<rparr>)))
            newBoard rest)"

definition placeMines :: "store \<Rightarrow> ref \<Rightarrow> Position list \<Rightarrow> (store \<times> ref) option" where
  "placeMines s board minePositions =
     (let (s1, newBoard) = alloc s (boards s board)
      in case placeMinesLoop s1 newBoard minePositions of
           None \<Rightarrow> None
         | Some s2 \<Rightarrow> Some (s2, newBoard))"

section \<open>Board construction\<close>

definition createEmptyCell :: CellState where
  "createEmptyCell = \<lparr>content = Count 0, isRevealed = False, isFlagged = False\<rparr>"

text \<open>\<^verbatim>\<open>Array.from({ length: n }, ...)\<close> builds the empty array when \<open>n\<close> is negative.\<close>

definition createEmptyBoard :: "store \<Rightarrow> int \<Rightarrow> int \<Rightarrow> store \<times> ref" where
  "createEmptyBoard s rows cols = alloc s (replicate (nat rows) (replicate (nat cols) createEmptyCell))"

text \<open>
  The filter callback of \<open>countAdjacentMines\<close> reads \<^verbatim>\<open>board[r][c].content\<close> for every
  neighbour, which throws when the cell is missing.
\<close>

fun mineNeighbors :: "Board \<Rightarrow> Position list \<Rightarrow> Position list option" where
  "mineNeighbors board [] = Some []"
| "mineNeighbors board ((r, c) # rest) =
     (case cellAt board r c of
        None \<Rightarrow> None
      | Some cell \<Rightarrow>
          (case mineNeighbors board rest of
             None \<Rightarrow> None
           | Some found \<Rightarrow> Some (if content cell = Mine then (r, c) # found else found)))"

definition countAdjacentMines :: "Board \<Rightarrow> int \<Rightarrow> int \<Rightarrow> int option" where
  "countAdjacentMines board row col =
     (let rows = int (length board) in
      if rows = 0 then Some 0 else
      let cols = int (length (board ! 0)) in
      if cols = 0 then Some 0 else
      if \<not> isValidPosition row col rows cols then Some 0 else
      let neighbors = getNeighbors row col rows cols
      in case mineNeighbors board neighbors of
           None \<Rightarrow> None
         | Some found \<Rightarrow> Some (int (length found)))"

text \<open>
  The two nested loops of \<open>calculateNumbers\<close> visit the positions in raster order; the
  adjacency count is read from the original \<open>board\<close>, the result is written to
  \<open>newBoard\<close>.
\<close>

fun calculateLoop :: "store \<Rightarrow> ref \<Rightarrow> ref \<Rightarrow> Position list \<Rightarrow> store option" where
  "calculateLoop s board newBoard [] = Some s"
| "calculateLoop s board newBoard ((row, col) # rest) =
     (case cellAt (boards s newBoard) row col of
        None \<Rightarrow> None
      | Some cell \<Rightarrow>
          if content cell \<noteq> Mine then
            (case countAdjacentMines (boards s board) row col of
               None \<Rightarrow> None
             | Some n \<Rightarrow>
                 calculateLoop
                   (modify s newBoard (\<lambda>b. updateCell b row col (\<lambda>cell. cell\<lparr>content := Count n\<rparr>)))
                   board newBoard rest)
          else calculateLoop s board newBoard rest)"

definition calculateNumbers :: "store \<Rightarrow> ref \<Rightarrow> (store \<times> ref) option" where
  "calculateNumbers s board =
     (let rows = int (length (boards s board)) in
      if rows = 0 then Some (alloc s []) else
      let cols = int (length (boards s board ! 0)) in
      if cols = 0 then Some (alloc s (map (\<lambda>_. []) (boards s board))) else
      let (s1, newBoard) = alloc s (boards s board)
      in case calculateLoop s1 board newBoard
                [(row, col). row \<leftarrow> [0..rows - 1], col \<leftarrow> [0..cols - 1]] of
           None \<Rightarrow> None
         | Some s2 \<Rightarrow> Some (s2, newBoard))"

definition createBoard ::
  "(nat \<Rightarrow> random01) \<Rightarrow> store \<Rightarrow> GameConfig \<Rightarrow> Position option \<Rightarrow> (store \<times> ref) option" where
  "createBoard rnd s config excludePosition =
     (let rows = cfgRows config; cols = cfgCols config; mineCount = cfgMineCount config;
          (s1, board) = createEmptyBoard s rows cols;
          minePositions = generateMinePositions rnd rows cols mineCount excludePosition
      in case placeMines s1 board minePositions of
           None \<Rightarrow> None
         | Some (s2, board2) \<Rightarrow> calculateNumbers s2 board2)"

definition createBoardWithMines :: "store \<Rightarrow> int \<Rightarrow> int \<Rightarrow> Position list \<Rightarrow> (store \<times> ref) option" where
  "createBoardWithMines s rows cols minePositions =
     (let (s1, board) = createEmptyBoard s rows cols
      in case placeMines s1 board minePositions of
           None \<Rightarrow> None
         | Some (s2, board2) \<Rightarrow> calculateNumbers s2 board2)"

section \<open>Game state transitions\<close>

text \<open>
  The flood fill terminates because every call that recurses has first revealed a cell
  that was hidden: the number of hidden cells of the board at hand never grows and
  drops before the neighbours are visited.
\<close>

definition hiddenCells :: "Board \<Rightarrow> nat" where
  "hiddenCells b = sum_list (map (\<lambda>row. length (filter (\<lambda>cell. \<not> isRevealed cell) row)) b)"

text \<open>
  \<open>revealCell\<close> returns \<open>None\<close> when the program throws a TypeError (a cell inside the
  bounds taken from the first row is missing in a shorter row). \<open>revealNeighbors\<close> is the
  \<^verbatim>\<open>for (const neighbor of neighbors)\<close> loop of the flood fill.
\<close>

function revealCell :: "store \<Rightarrow> ref \<Rightarrow> int \<Rightarrow> int \<Rightarrow> (store \<times> ref) option"
  and revealNeighbors :: "store \<Rightarrow> ref \<Rightarrow> Position list \<Rightarrow> (store \<times> ref) option"
where
  "revealCell s board row col =
     (let rows = int (length (boards s board)) in
      if rows = 0 then Some (s, board) else
      let cols = int (length (boards s board ! 0)) in
      if cols = 0 then Some (s, board) else
      if \<not> isValidPosition row col rows cols then Some (s, board) else
      case cellAt (boards s board) row col of
        None \<Rightarrow> None
      | Some target \<Rightarrow>
          if isFlagged target \<or> isRevealed target then Some (s, board) else
          let (s1, newBoard) = alloc s (boards s board);
              s2 = modify s1 newBoard (\<lambda>b. updateCell b row col (\<lambda>cell. cell\<lparr>isRevealed := True\<rparr>))
          in if content target = Mine \<or> (case content target of Count n \<Rightarrow> n > 0 | Mine \<Rightarrow> False)
             then Some (s2, newBoard)
             else revealNeighbors s2 newBoard (getNeighbors row col rows cols))"
| "revealNeighbors s resultBoard [] = Some (s, resultBoard)"
| "revealNeighbors s resultBoard (neighbor # rest) =
     (case revealCell s resultBoard (fst neighbor) (snd neighbor) of
        None \<Rightarrow> None
      | Some (s', resultBoard') \<Rightarrow> revealNeighbors s' resultBoard' rest)"
  by pat_completeness auto
termination
proof -
  have sum_less: "sum_list (xs[i := v]) < sum_list xs"
    if "i < length xs" "v < xs ! i" for xs :: "nat list" and i v
    using that
  proof (induction xs arbitrary: i)
    case Nil
    then show ?case by simp
  next
    case (Cons x xs)
    then show ?case by (cases i) auto
  qed
  have filter_less:
    "length (filter (\<lambda>cell. \<not> isRevealed cell) (cells[j := (cells ! j)\<lparr>isRevealed := True\<rparr>]))
       < length (filter (\<lambda>cell. \<not> isRevealed cell) cells)"
    if "j < length cells" "\<not> isRevealed (cells ! j)" for cells :: "CellState list" and j
    using that
  proof (induction cells arbitrary: j)
    case Nil
    then show ?case by simp
  next
    case (Cons x xs)
    then show ?case by (cases j) auto
  qed
  have reveal_less:
    "hiddenCells (updateCell b row col (\<lambda>cell. cell\<lparr>isRevealed := True\<rparr>)) < hiddenCells b"
    if c: "cellAt b row col = Some t" "\<not> isRevealed t" for b row col t
  proof -
    from c have inb: "0 \<le> row" "nat row < length b" "0 \<le> col" "nat col < length (b ! nat row)"
      and t: "t = b ! nat row ! nat col"
      by (auto simp: cellAt_def split: if_splits)
    have "hiddenCells (b[nat row := (b ! nat row)[nat col := (b ! nat row ! nat col)\<lparr>isRevealed := True\<rparr>]])
        < hiddenCells b"
      unfolding hiddenCells_def map_update
    proof (rule sum_less)
      show "nat row < length (map (\<lambda>row. length (filter (\<lambda>cell. \<not> isRevealed cell) row)) b)"
        using inb by simp
      show "length (filter (\<lambda>cell. \<not> isRevealed cell)
                 ((b ! nat row)[nat col := (b ! nat row ! nat col)\<lparr>isRevealed := True\<rparr>]))
          < map (\<lambda>row. length (filter (\<lambda>cell. \<not> isRevealed cell) row)) b ! nat row"
        using inb c(2) t filter_less[of "nat col" "b ! nat row"] by simp
    qed
    then show ?thesis using inb by (simp add: updateCell_def)
  qed
  have partial:
    "revealCell_revealNeighbors_dom (Inl (s, board, row, col)) \<Longrightarrow>
       revealCell s board row col = Some (s', board') \<Longrightarrow>
       hiddenCells (boards s' board') \<le> hiddenCells (boards s board)"
    "revealCell_revealNeighbors_dom (Inr (s, board, ns)) \<Longrightarrow>
       revealNeighbors s board ns = Some (s', board') \<Longrightarrow>
       hiddenCells (boards s' board') \<le> hiddenCells (boards s board)"
    for s board row col ns s' board'
  proof (induction s board row col and s board ns arbitrary: s' board' and s' board' rule: revealCell_revealNeighbors.pinduct)
    case (1 s board row col)
    show ?case
    proof (cases "cellAt (boards s board) row col")
      case None
      with "1.prems" "1.hyps" show ?thesis
        by (auto simp: revealCell.psimps Let_def split: if_splits)
    next
      case (Some t)
      let ?b1 = "updateCell (boards s board) row col (\<lambda>cell. cell\<lparr>isRevealed := True\<rparr>)"
      let ?s2 = "\<lparr>boards = (boards s)(nextRef s := ?b1), nextRef = Suc (nextRef s)\<rparr>"
      have less: "\<not> isRevealed t \<Longrightarrow> hiddenCells ?b1 < hiddenCells (boards s board)"
        using reveal_less[OF Some] .
      have ih: "hiddenCells (boards s' board') \<le> hiddenCells (boards ?s2 (nextRef s))"
        if "int (length (boards s board)) \<noteq> 0" "int (length (boards s board ! 0)) \<noteq> 0"
           "isValidPosition row col (int (length (boards s board))) (int (length (boards s board ! 0)))"
           "\<not> (isFlagged t \<or> isRevealed t)"
           "\<not> (content t = Mine \<or> (case content t of Mine \<Rightarrow> False | Count x \<Rightarrow> 0 < x))"
           "revealNeighbors ?s2 (nextRef s) (getNeighbors row col (int (length (boards s board))) (int (length (boards s board ! 0)))) = Some (s', board')"
        using "1.IH"[OF refl that(1) refl that(2) _ Some that(4) refl _ refl that(5), of "fst (alloc s (boards s board))" "snd (alloc s (boards s board))" s' board'] that(3,6)
        by (simp add: alloc_def modify_def)
      show ?thesis
        using "1.prems" Some less ih
        by (auto simp: revealCell.psimps[OF "1.hyps"] alloc_def modify_def Let_def split: if_splits)
    qed
  next
    case (2 s resultBoard)
    then show ?case by (simp add: revealNeighbors.psimps)
  next
    case (3 s resultBoard neighbor rest)
    then show ?case
      by (auto simp: revealNeighbors.psimps split: option.splits) (metis le_trans)
  qed
  show ?thesis
  proof (relation "measures
      [\<lambda>x. case x of Inl (s, b, r, c) \<Rightarrow> hiddenCells (boards s b)
                    | Inr (s, b, ns) \<Rightarrow> hiddenCells (boards s b),
       \<lambda>x. case x of Inl _ \<Rightarrow> 0 | Inr (s, b, ns) \<Rightarrow> Suc (length ns)]", goal_cases)
    case 1
    show ?case by simp
  next
    case (2 s board row col x xa x2 xb xc y xba)
    then show ?case
      using reveal_less [of "boards s board" row col x2]
      by (auto simp: alloc_def modify_def)
  next
    case 3
    then show ?case by simp
  next
    case (4 s resultBoard neighbor rest x2 x y)
    then show ?case
      using partial(1) [of s resultBoard "fst neighbor" "snd neighbor" x y]
      by auto
  qed
qed

definition revealAllMines :: "store \<Rightarrow> ref \<Rightarrow> store \<times> ref" where
  "revealAllMines s board =
     alloc s (map (\<lambda>row. map (\<lambda>cell.
        cell\<lparr>isRevealed := (if content cell = Mine then True else isRevealed cell)\<rparr>) row)
        (boards s board))"

definition toggleFlag :: "store \<Rightarrow> ref \<Rightarrow> int \<Rightarrow> int \<Rightarrow> (store \<times> ref) option" where
  "toggleFlag s board row col =
     (let rows = int (length (boards s board)) in
      if rows = 0 then Some (s, board) else
      let cols = int (length (boards s board ! 0)) in
      if cols = 0 then Some (s, board) else
      if \<not> isValidPosition row col rows cols then Some (s, board) else
      case cellAt (boards s board) row col of
        None \<Rightarrow> None
      | Some target \<Rightarrow>
          if isRevealed target then Some (s, board) else
          let (s1, newBoard) = alloc s (boards s board);
              s2 = modify s1 newBoard (\<lambda>b. updateCell b row col (\<lambda>cell. cell\<lparr>isFlagged := \<not> isFlagged cell\<rparr>))
          in Some (s2, newBoard))"

definition checkGameLost :: "Board \<Rightarrow> bool" where
  "checkGameLost board \<longleftrightarrow>
     list_ex (\<lambda>row. list_ex (\<lambda>cell. content cell = Mine \<and> isRevealed cell) row) board"

definition checkGameWon :: "Board \<Rightarrow> bool" where
  "checkGameWon board \<longleftrightarrow>
     (if list_ex (\<lambda>row. list_ex (\<lambda>cell. content cell \<noteq> Mine \<and> \<not> isRevealed cell) row) board
      then False
      else length board > 0 \<and> length (board ! 0) > 0)"

definition countFlags :: "Board \<Rightarrow> nat" where
  "countFlags board = fold (\<lambda>row count. fold (\<lambda>cell count. if isFlagged cell then count + 1 else count) row count) board 0"


text \<open>
  Abbreviations used to state what one step of \<open>revealCell\<close> does: the grid with one more
  cell revealed, the store after a new grid has been allocated, and the test
  \<^verbatim>\<open>content > 0\<close>, which is false for the mine marker.
\<close>

definition revealAt :: "Board \<Rightarrow> int \<Rightarrow> int \<Rightarrow> Board" where
  "revealAt b row col = updateCell b row col (\<lambda>cell. cell\<lparr>isRevealed := True\<rparr>)"

definition pushBoard :: "store \<Rightarrow> Board \<Rightarrow> store" where
  "pushBoard s b = \<lparr>boards = (boards s)(nextRef s := b), nextRef = Suc (nextRef s)\<rparr>"

definition positive :: "CellContent \<Rightarrow> bool" where
  "positive x = (case x of Count n \<Rightarrow> n > 0 | Mine \<Rightarrow> False)"

text \<open>
  \<open>cellwise R a b\<close>: the grids \<open>a\<close> and \<open>b\<close> have the same shape and every cell of \<open>a\<close> is
  related by \<open>R\<close> to the cell of \<open>b\<close> at the same position. A grid is rectangular when
  every row is as long as the first.
\<close>

definition cellwise :: "(CellState \<Rightarrow> CellState \<Rightarrow> bool) \<Rightarrow> Board \<Rightarrow> Board \<Rightarrow> bool" where
  "cellwise R a b = list_all2 (list_all2 R) a b"

definition rectangular :: "Board \<Rightarrow> bool" where
  "rectangular b = list_all (\<lambda>row. length row = length (b ! 0)) b"

section \<open>Properties of boards\<close>

text \<open>
  \<open>revealFrame c c'\<close> is what a reveal may do to a cell; \<open>revealedCount\<close> counts the
  revealed cells; \<open>noFlaggedRevealed\<close> is the invariant that no cell is both flagged and
  revealed, and \<open>flagExclusion\<close> says that a cell does not come to violate it.
  \<open>storeOf b\<close> is a store that holds the grid \<open>b\<close> at reference \<open>0\<close> and nothing else;
  \<open>mkCell\<close>, \<open>board14\<close> and \<open>wonBoard\<close> are concrete cells and boards for the examples.
\<close>

definition revealFrame :: "CellState \<Rightarrow> CellState \<Rightarrow> bool" where
  "revealFrame c c' \<longleftrightarrow>
     content c' = content c \<and> isFlagged c' = isFlagged c \<and> (isRevealed c \<longrightarrow> isRevealed c')"

definition revealedCount :: "Board \<Rightarrow> nat" where
  "revealedCount b = sum_list (map (\<lambda>row. length (filter isRevealed row)) b)"

definition noFlaggedRevealed :: "Board \<Rightarrow> bool" where
  "noFlaggedRevealed b = list_all (list_all (\<lambda>cell. \<not> (isFlagged cell \<and> isRevealed cell))) b"

definition storeOf :: "Board \<Rightarrow> store" where
  "storeOf b = \<lparr>boards = (\<lambda>_. [])(0 := b), nextRef = 1\<rparr>"

definition mkCell :: "CellContent \<Rightarrow> bool \<Rightarrow> bool \<Rightarrow> CellState" where
  "mkCell c r f = \<lparr>content = c, isRevealed = r, isFlagged = f\<rparr>"

definition board14 :: Board where
  "board14 = [[mkCell (Count 0) False False, mkCell (Count 0) False False,
               mkCell (Count 1) False False, mkCell Mine False False]]"

definition flagExclusion :: "CellState \<Rightarrow> CellState \<Rightarrow> bool" where
  "flagExclusion c c' \<longleftrightarrow>
     (\<not> (isFlagged c \<and> isRevealed c) \<longrightarrow> \<not> (isFlagged c' \<and> isRevealed c'))"

definition wonBoard :: Board where
  "wonBoard = [[mkCell Mine False False, mkCell (Count 1) True False]]"

text \<open>
  \<open>applyAt h p g\<close> rewrites the cell of \<open>g\<close> at position \<open>p\<close> with \<open>h\<close>; \<open>numberCell\<close> is
  what \<open>calculateNumbers\<close> does to one cell; \<open>setBoard\<close> replaces the grid held at a
  reference.
\<close>

definition applyAt :: "(int \<Rightarrow> int \<Rightarrow> CellState \<Rightarrow> CellState) \<Rightarrow> Position \<Rightarrow> Board \<Rightarrow> Board" where
  "applyAt h p g = updateCell g (fst p) (snd p) (h (fst p) (snd p))"

definition numberCell :: "Board \<Rightarrow> int \<Rightarrow> int \<Rightarrow> CellState \<Rightarrow> CellState" where
  "numberCell b r c cell =
     (if content cell \<noteq> Mine then cell\<lparr>content := Count (the (countAdjacentMines b r c))\<rparr> else cell)"

definition setBoard :: "store \<Rightarrow> ref \<Rightarrow> Board \<Rightarrow> store" where
  "setBoard s r b = \<lparr>boards = (boards s)(r := b), nextRef = nextRef s\<rparr>"

definition board22 :: Board where
  "board22 = [[mkCell Mine False False, mkCell (Count 0) False False],
              [mkCell (Count 0) False False, mkCell (Count 0) False False]]"

text \<open>
  The exclusion set of the mine placement is the excluded position together with the
  neighbours that \<open>getNeighbors\<close> returns for it, and is empty when no position is
  excluded; \<open>safeZone\<close> further down describes the same cells without the program's
  function. \<open>countMines\<close> is the number
  of mine cells of a board; \<open>mineCell\<close> is what \<open>placeMines\<close> does to one cell.
\<close>

definition exclusionSet :: "int \<Rightarrow> int \<Rightarrow> Position option \<Rightarrow> Position set" where
  "exclusionSet rows cols excludePosition =
     (case excludePosition of
        None \<Rightarrow> {}
      | Some (erow, ecol) \<Rightarrow> insert (erow, ecol) (set (getNeighbors erow ecol rows cols)))"

definition countMines :: "Board \<Rightarrow> nat" where
  "countMines b = sum_list (map (\<lambda>row. length (filter (\<lambda>cell. content cell = Mine) row)) b)"

definition mineCell :: "int \<Rightarrow> int \<Rightarrow> CellState \<Rightarrow> CellState" where
  "mineCell r c cell = cell\<lparr>content := Mine\<rparr>"

text \<open>
  Two constant random sources, and the grid denoted by the result of an operation.
\<close>

definition zeroSource :: "nat \<Rightarrow> random01" where
  "zeroSource k = zeroDraw"

definition halfSource :: "nat \<Rightarrow> random01" where
  "halfSource k = halfDraw"


text \<open>
  Positions are looked up with \<open>cellOf\<close>; \<open>neighborsOf\<close> are the neighbours that the
  program visits. A cell is hidden when it exists and is neither revealed nor flagged: these
  are the cells a call of \<open>revealCell\<close> acts on. A cell spreads when the program recurses
  from it: it is no mine and its count is not positive. \<open>hiddenReach b p\<close> collects the cells
  that the recursion started at \<open>p\<close> can reach, and \<open>floodSpec\<close> is the invariant of the
  recursion: the frame, nothing revealed outside the reachable cells, every newly revealed
  spreading cell has no hidden neighbour left, and no start position is left hidden.

  The claim itself speaks of zero cells, numbered cells and mines, of adjacency (two
  different positions whose rows and whose columns differ by at most one), of the connected
  region of zero cells around a position and of the numbered cells bordering it; and of
  boards without flags and with correct adjacency counts.
\<close>

definition cellOf :: "Board \<Rightarrow> Position \<Rightarrow> CellState option" where
  "cellOf b q = cellAt b (fst q) (snd q)"

definition neighborsOf :: "Board \<Rightarrow> Position \<Rightarrow> Position set" where
  "neighborsOf b q = set (getNeighbors (fst q) (snd q) (int (length b)) (int (length (b ! 0))))"

definition hiddenAt :: "Board \<Rightarrow> Position \<Rightarrow> bool" where
  "hiddenAt b q \<longleftrightarrow> (\<exists>cell. cellOf b q = Some cell \<and> \<not> isRevealed cell \<and> \<not> isFlagged cell)"


definition spreads :: "Board \<Rightarrow> Position \<Rightarrow> bool" where
  "spreads b q \<longleftrightarrow> (\<exists>cell. cellOf b q = Some cell \<and> \<not> (content cell = Mine \<or> positive (content cell)))"

inductive_set hiddenReach :: "Board \<Rightarrow> Position \<Rightarrow> Position set" for b :: Board and p :: Position where
  start: "hiddenAt b p \<Longrightarrow> p \<in> hiddenReach b p"
| step: "x \<in> hiddenReach b p \<Longrightarrow> spreads b x \<Longrightarrow> y \<in> neighborsOf b x \<Longrightarrow> hiddenAt b y
         \<Longrightarrow> y \<in> hiddenReach b p"


definition adjacent :: "Position \<Rightarrow> Position \<Rightarrow> bool" where
  "adjacent p q \<longleftrightarrow> p \<noteq> q \<and> \<bar>fst p - fst q\<bar> \<le> 1 \<and> \<bar>snd p - snd q\<bar> \<le> 1"

definition safeZone :: "int \<Rightarrow> int \<Rightarrow> Position \<Rightarrow> Position set" where
  "safeZone rows cols e = insert e {q. adjacent e q \<and> isValidPosition (fst q) (snd q) rows cols}"

definition zeroAt :: "Board \<Rightarrow> Position \<Rightarrow> bool" where
  "zeroAt b q \<longleftrightarrow> (\<exists>cell. cellOf b q = Some cell \<and> content cell = Count 0)"



inductive_set zeroRegion :: "Board \<Rightarrow> Position \<Rightarrow> Position set" for b :: Board and p :: Position where
  origin: "zeroAt b p \<Longrightarrow> p \<in> zeroRegion b p"
| extend: "x \<in> zeroRegion b p \<Longrightarrow> adjacent x y \<Longrightarrow> zeroAt b y \<Longrightarrow> y \<in> zeroRegion b p"







section \<open>Basic facts about the flood fill\<close>

declare revealCell.simps [simp del]


lemma boards_pushBoard [simp]: "boards (pushBoard s b) r = (if r = nextRef s then b else boards s r)"
  by (simp add: pushBoard_def)

lemma nextRef_pushBoard [simp]: "nextRef (pushBoard s b) = Suc (nextRef s)"
  by (simp add: pushBoard_def)

lemma revealCell_noop:
  assumes "boards s board = [] \<or> boards s board ! 0 = []
           \<or> \<not> isValidPosition row col (int (length (boards s board))) (int (length (boards s board ! 0)))
           \<or> (\<exists>t. cellAt (boards s board) row col = Some t \<and> (isFlagged t \<or> isRevealed t))"
  shows "revealCell s board row col = Some (s, board)"
  using assms by (auto simp: revealCell.simps Let_def)

lemma revealCell_missing:
  assumes "boards s board \<noteq> []" "boards s board ! 0 \<noteq> []"
    "isValidPosition row col (int (length (boards s board))) (int (length (boards s board ! 0)))"
    "cellAt (boards s board) row col = None"
  shows "revealCell s board row col = None"
  using assms by (simp add: revealCell.simps Let_def)

lemma revealCell_open:
  assumes "boards s board \<noteq> []" "boards s board ! 0 \<noteq> []"
    "isValidPosition row col (int (length (boards s board))) (int (length (boards s board ! 0)))"
    "cellAt (boards s board) row col = Some t" "\<not> isFlagged t" "\<not> isRevealed t"
  shows "revealCell s board row col =
     (if content t = Mine \<or> positive (content t)
      then Some (pushBoard s (revealAt (boards s board) row col), nextRef s)
      else revealNeighbors (pushBoard s (revealAt (boards s board) row col)) (nextRef s)
             (getNeighbors row col (int (length (boards s board))) (int (length (boards s board ! 0)))))"
  using assms
  by (simp add: revealCell.simps Let_def alloc_def modify_def pushBoard_def revealAt_def positive_def)

lemma reveal_induct [case_names cell nil cons]:
  assumes cell: "\<And>s board row col.
      (\<And>t. boards s board \<noteq> [] \<Longrightarrow> boards s board ! 0 \<noteq> [] \<Longrightarrow>
        isValidPosition row col (int (length (boards s board))) (int (length (boards s board ! 0))) \<Longrightarrow>
        cellAt (boards s board) row col = Some t \<Longrightarrow> \<not> isFlagged t \<Longrightarrow> \<not> isRevealed t \<Longrightarrow>
        \<not> (content t = Mine \<or> positive (content t)) \<Longrightarrow>
        Q (pushBoard s (revealAt (boards s board) row col)) (nextRef s)
          (getNeighbors row col (int (length (boards s board))) (int (length (boards s board ! 0)))))
      \<Longrightarrow> P s board row col"
    and nil: "\<And>s board. Q s board []"
    and cons: "\<And>s board n rest. P s board (fst n) (snd n) \<Longrightarrow>
        (\<And>s' board'. revealCell s board (fst n) (snd n) = Some (s', board') \<Longrightarrow> Q s' board' rest)
        \<Longrightarrow> Q s board (n # rest)"
  shows "P s board row col" and "Q s board ns"
proof (induction s board row col and s board ns rule: revealCell_revealNeighbors.induct)
  case (1 s board row col)
  show ?case
  proof (rule cell)
    fix t
    assume a: "boards s board \<noteq> []" "boards s board ! 0 \<noteq> []"
        "isValidPosition row col (int (length (boards s board))) (int (length (boards s board ! 0)))"
        "cellAt (boards s board) row col = Some t" "\<not> isFlagged t" "\<not> isRevealed t"
        "\<not> (content t = Mine \<or> positive (content t))"
    have "Q (modify (fst (alloc s (boards s board))) (snd (alloc s (boards s board)))
             (\<lambda>b. updateCell b row col (\<lambda>cell. cell\<lparr>isRevealed := True\<rparr>)))
            (snd (alloc s (boards s board)))
            (getNeighbors row col (int (length (boards s board))) (int (length (boards s board ! 0))))"
      apply (rule "1.IH"[OF refl _ refl _ _ a(4) _ refl _ refl])
      using a by (auto simp: positive_def)
    then show "Q (pushBoard s (revealAt (boards s board) row col)) (nextRef s)
          (getNeighbors row col (int (length (boards s board))) (int (length (boards s board ! 0))))"
      by (simp add: alloc_def modify_def pushBoard_def revealAt_def)
  qed
next
  case (2 s resultBoard)
  show ?case by (rule nil)
next
  case (3 s resultBoard neighbor rest)
  show ?case
    apply (rule cons)
     apply (rule "3.IH"(1))
    apply (rule "3.IH"(2))
     apply assumption
    apply simp
    done
qed


subsection \<open>Cell-wise relations between grids\<close>


lemma cellwise_refl: "(\<And>c. R c c) \<Longrightarrow> cellwise R b b"
  by (simp add: cellwise_def list_all2_refl)

lemma cellwise_trans:
  assumes "\<And>a b c. R a b \<Longrightarrow> R b c \<Longrightarrow> R a c" "cellwise R x y" "cellwise R y z"
  shows "cellwise R x z"
proof -
  have "\<And>a b c. list_all2 R a b \<Longrightarrow> list_all2 R b c \<Longrightarrow> list_all2 R a c"
    using assms(1) by (rule list_all2_trans)
  then show ?thesis
    using assms(2,3) unfolding cellwise_def by (rule list_all2_trans)
qed

lemma cellwise_length: "cellwise R a b \<Longrightarrow> length b = length a"
  by (simp add: cellwise_def list_all2_lengthD)

lemma cellwise_row_length: "cellwise R a b \<Longrightarrow> i < length a \<Longrightarrow> length (b ! i) = length (a ! i)"
  unfolding cellwise_def by (drule list_all2_nthD, assumption) (simp add: list_all2_lengthD)

lemma cellwise_nth:
  "cellwise R a b \<Longrightarrow> i < length a \<Longrightarrow> j < length (a ! i) \<Longrightarrow> R (a ! i ! j) (b ! i ! j)"
  unfolding cellwise_def by (drule list_all2_nthD, assumption) (erule list_all2_nthD, assumption)

lemma cellwise_cellAt:
  assumes "cellwise R a b" "cellAt a row col = Some x"
  shows "\<exists>y. cellAt b row col = Some y \<and> R x y"
proof -
  from assms(2) have inb: "0 \<le> row" "nat row < length a" "0 \<le> col" "nat col < length (a ! nat row)"
    and x: "x = a ! nat row ! nat col"
    by (auto simp: cellAt_def split: if_splits)
  have "cellAt b row col = Some (b ! nat row ! nat col)"
    using inb cellwise_length[OF assms(1)] cellwise_row_length[OF assms(1) inb(2)]
    by (simp add: cellAt_def)
  moreover have "R x (b ! nat row ! nat col)"
    unfolding x using assms(1) inb(2,4) by (rule cellwise_nth)
  ultimately show ?thesis by blast
qed

lemma cellwise_cellAt_None:
  assumes "cellwise R a b" "cellAt a row col = None"
  shows "cellAt b row col = None"
proof (cases "0 \<le> row \<and> nat row < length a")
  case True
  then show ?thesis
    using assms cellwise_length[OF assms(1)] cellwise_row_length[OF assms(1), of "nat row"]
    by (auto simp: cellAt_def split: if_splits)
next
  case False
  then show ?thesis
    using cellwise_length[OF assms(1)] by (auto simp: cellAt_def)
qed

lemma cellwise_updateCell:
  assumes "\<And>c. R c c"
    and "\<And>c. cellAt b row col = Some c \<Longrightarrow> R c (f c)"
  shows "cellwise R b (updateCell b row col f)"
proof (cases "0 \<le> row \<and> nat row < length b \<and> 0 \<le> col \<and> nat col < length (b ! nat row)")
  case True
  then have c: "cellAt b row col = Some (b ! nat row ! nat col)"
    by (simp add: cellAt_def)
  have rowrel: "list_all2 R (b ! nat row) ((b ! nat row)[nat col := f (b ! nat row ! nat col)])"
    using list_all2_update_cong[of R "b ! nat row" "b ! nat row" "b ! nat row ! nat col" "f (b ! nat row ! nat col)" "nat col"]
      assms(1) assms(2)[OF c] by (simp add: list_all2_refl)
  have "list_all2 (list_all2 R) (b[nat row := b ! nat row]) (b[nat row := (b ! nat row)[nat col := f (b ! nat row ! nat col)]])"
    by (rule list_all2_update_cong) (simp_all add: list_all2_refl assms(1) rowrel)
  then show ?thesis using True by (simp add: cellwise_def updateCell_def)
next
  case False
  then show ?thesis using assms(1) by (auto simp: updateCell_def intro: cellwise_refl)
qed

lemma cellwise_dims:
  assumes "cellwise R a b"
  shows "length b = length a" "length (b ! 0) = length (a ! 0) \<or> a = []"
  using cellwise_length[OF assms] cellwise_row_length[OF assms, of 0] by auto

lemma cellwise_rectangular:
  assumes "cellwise R a b" "rectangular a"
  shows "rectangular b"
proof -
  have len: "length b = length a" using assms(1) by (rule cellwise_length)
  have "length (b ! i) = length (b ! 0)" if "i < length b" for i
  proof -
    have "length (b ! i) = length (a ! i)" using assms(1) that len by (simp add: cellwise_row_length)
    also have "\<dots> = length (a ! 0)" using assms(2) that len by (simp add: rectangular_def list_all_length)
    also have "\<dots> = length (b ! 0)"
    proof -
      have "0 < length a" using that len by (cases a) auto
      then show ?thesis using cellwise_row_length[OF assms(1), of 0] by simp
    qed
    finally show ?thesis .
  qed
  then show ?thesis by (simp add: rectangular_def list_all_length)
qed




lemma reveal_cellwise:
  assumes refl: "\<And>c. R c c"
    and trans: "\<And>a b c. R a b \<Longrightarrow> R b c \<Longrightarrow> R a c"
    and step: "\<And>c. \<not> isFlagged c \<Longrightarrow> \<not> isRevealed c \<Longrightarrow> R c (c\<lparr>isRevealed := True\<rparr>)"
  shows "revealCell s board row col = Some (s', board') \<Longrightarrow> cellwise R (boards s board) (boards s' board')"
    and "revealNeighbors s board ns = Some (s', board') \<Longrightarrow> cellwise R (boards s board) (boards s' board')"
proof (induction s board row col and s board ns arbitrary: s' board' and s' board' rule: reveal_induct)
  case (cell s board row col)
  let ?b = "boards s board"
  show ?case
  proof (cases "?b = [] \<or> ?b ! 0 = [] \<or> \<not> isValidPosition row col (int (length ?b)) (int (length (?b ! 0)))
           \<or> (\<exists>t. cellAt ?b row col = Some t \<and> (isFlagged t \<or> isRevealed t))")
    case True
    then have "revealCell s board row col = Some (s, board)" by (rule revealCell_noop)
    with cell.prems show ?thesis by (simp add: cellwise_refl refl)
  next
    case False
    with cell.prems revealCell_missing[of s board row col] obtain t where
      t: "cellAt ?b row col = Some t" "\<not> isFlagged t" "\<not> isRevealed t"
      by (cases "cellAt ?b row col") auto
    have one: "cellwise R ?b (revealAt ?b row col)"
      unfolding revealAt_def using refl
    proof (rule cellwise_updateCell)
      fix c assume "cellAt ?b row col = Some c"
      with t show "R c (c\<lparr>isRevealed := True\<rparr>)" by (simp add: step)
    qed
    have eq: "revealCell s board row col =
     (if content t = Mine \<or> positive (content t)
      then Some (pushBoard s (revealAt ?b row col), nextRef s)
      else revealNeighbors (pushBoard s (revealAt ?b row col)) (nextRef s)
             (getNeighbors row col (int (length ?b)) (int (length (?b ! 0)))))"
      using False t by (intro revealCell_open) auto
    show ?thesis
    proof (cases "content t = Mine \<or> positive (content t)")
      case True
      with eq cell.prems one show ?thesis by auto
    next
      case nz: False
      with eq cell.prems have rn: "revealNeighbors (pushBoard s (revealAt ?b row col)) (nextRef s)
             (getNeighbors row col (int (length ?b)) (int (length (?b ! 0)))) = Some (s', board')"
        by simp
      have "cellwise R (boards (pushBoard s (revealAt ?b row col)) (nextRef s)) (boards s' board')"
        using False t nz rn by (intro cell.IH[of t]) auto
      then have "cellwise R (revealAt ?b row col) (boards s' board')" by simp
      with one show ?thesis using trans by (blast intro: cellwise_trans)
    qed
  qed
next
  case (nil s board)
  then show ?case by (simp add: cellwise_refl refl)
next
  case (cons s board n rest)
  from cons.prems obtain s1 b1 where
    r1: "revealCell s board (fst n) (snd n) = Some (s1, b1)" and
    r2: "revealNeighbors s1 b1 rest = Some (s', board')"
    by (auto split: option.splits)
  from cons.IH(1)[OF r1] cons.IH(2)[OF r1 r2] show ?case
    using trans by (blast intro: cellwise_trans)
qed


section \<open>Calls of revealCell that change nothing\<close>

text \<open>
  Claim C5. \<open>revealCell\<close> returns the very reference it was given, and leaves the store
  as it was, whenever the board has no rows, its first row has no columns, the position
  fails \<open>isValidPosition\<close> for the board's dimensions, or the target cell exists and is
  flagged or already revealed.
\<close>

theorem revealCell_noop_same_reference:
  assumes "length (boards s board) = 0
         \<or> length (boards s board ! 0) = 0
         \<or> \<not> isValidPosition row col (int (length (boards s board))) (int (length (boards s board ! 0)))
         \<or> (\<exists>target. cellAt (boards s board) row col = Some target
                \<and> (isFlagged target \<or> isRevealed target))"
  shows "revealCell s board row col = Some (s, board)"
  using assms by (intro revealCell_noop) auto

theorem revealCell_noop_same_reference_witness:
  "revealCell \<lparr>boards = (\<lambda>_. []), nextRef = 1\<rparr> 0 0 0 = Some (\<lparr>boards = (\<lambda>_. []), nextRef = 1\<rparr>, 0)
   \<and> revealCell \<lparr>boards = (\<lambda>_. [[]]), nextRef = 1\<rparr> 0 0 0 = Some (\<lparr>boards = (\<lambda>_. [[]]), nextRef = 1\<rparr>, 0)
   \<and> revealCell \<lparr>boards = (\<lambda>_. [[createEmptyCell]]), nextRef = 1\<rparr> 0 0 (-1)
        = Some (\<lparr>boards = (\<lambda>_. [[createEmptyCell]]), nextRef = 1\<rparr>, 0)
   \<and> revealCell \<lparr>boards = (\<lambda>_. [[createEmptyCell\<lparr>isFlagged := True\<rparr>]]), nextRef = 1\<rparr> 0 0 0
        = Some (\<lparr>boards = (\<lambda>_. [[createEmptyCell\<lparr>isFlagged := True\<rparr>]]), nextRef = 1\<rparr>, 0)
   \<and> revealCell \<lparr>boards = (\<lambda>_. [[createEmptyCell\<lparr>isRevealed := True\<rparr>]]), nextRef = 1\<rparr> 0 0 0
        = Some (\<lparr>boards = (\<lambda>_. [[createEmptyCell\<lparr>isRevealed := True\<rparr>]]), nextRef = 1\<rparr>, 0)"
proof (intro conjI)
  show "revealCell \<lparr>boards = (\<lambda>_. []), nextRef = 1\<rparr> 0 0 0 = Some (\<lparr>boards = (\<lambda>_. []), nextRef = 1\<rparr>, 0)"
    by (rule revealCell_noop_same_reference) simp
  show "revealCell \<lparr>boards = (\<lambda>_. [[]]), nextRef = 1\<rparr> 0 0 0 = Some (\<lparr>boards = (\<lambda>_. [[]]), nextRef = 1\<rparr>, 0)"
    by (rule revealCell_noop_same_reference) simp
  show "revealCell \<lparr>boards = (\<lambda>_. [[createEmptyCell]]), nextRef = 1\<rparr> 0 0 (-1)
        = Some (\<lparr>boards = (\<lambda>_. [[createEmptyCell]]), nextRef = 1\<rparr>, 0)"
    by (rule revealCell_noop_same_reference) (simp add: isValidPosition_def)
  show "revealCell \<lparr>boards = (\<lambda>_. [[createEmptyCell\<lparr>isFlagged := True\<rparr>]]), nextRef = 1\<rparr> 0 0 0
        = Some (\<lparr>boards = (\<lambda>_. [[createEmptyCell\<lparr>isFlagged := True\<rparr>]]), nextRef = 1\<rparr>, 0)"
    by (rule revealCell_noop_same_reference) (simp add: cellAt_def createEmptyCell_def)
  show "revealCell \<lparr>boards = (\<lambda>_. [[createEmptyCell\<lparr>isRevealed := True\<rparr>]]), nextRef = 1\<rparr> 0 0 0
        = Some (\<lparr>boards = (\<lambda>_. [[createEmptyCell\<lparr>isRevealed := True\<rparr>]]), nextRef = 1\<rparr>, 0)"
    by (rule revealCell_noop_same_reference) (simp add: cellAt_def createEmptyCell_def)
qed

section \<open>What revealCell leaves unchanged\<close>

lemma cellwise_explicit:
  "cellwise R a b \<longleftrightarrow>
     map length b = map length a \<and>
     (\<forall>i < length a. \<forall>j < length (a ! i). R (a ! i ! j) (b ! i ! j))"
proof
  assume c: "cellwise R a b"
  have "map length b = map length a"
    by (rule nth_equalityI) (simp_all add: cellwise_length[OF c] cellwise_row_length[OF c])
  then show "map length b = map length a \<and> (\<forall>i < length a. \<forall>j < length (a ! i). R (a ! i ! j) (b ! i ! j))"
    using cellwise_nth[OF c] by blast
next
  assume r: "map length b = map length a \<and> (\<forall>i < length a. \<forall>j < length (a ! i). R (a ! i ! j) (b ! i ! j))"
  then have len: "length b = length a" by (metis length_map)
  have rows: "length (b ! i) = length (a ! i)" if "i < length a" for i
  proof -
    have "map length b ! i = map length a ! i" using r by simp
    then show ?thesis using that len by simp
  qed
  show "cellwise R a b"
    unfolding cellwise_def list_all2_conv_all_nth
    using r len rows by auto
qed

lemma reveal_frame:
  "revealCell s board row col = Some (s', board') \<Longrightarrow> cellwise revealFrame (boards s board) (boards s' board')"
  "revealNeighbors s board ns = Some (s', board') \<Longrightarrow> cellwise revealFrame (boards s board) (boards s' board')"
proof -
  have 1: "\<And>c. revealFrame c c" by (simp add: revealFrame_def)
  have 2: "\<And>a b c. revealFrame a b \<Longrightarrow> revealFrame b c \<Longrightarrow> revealFrame a c" by (simp add: revealFrame_def)
  have 3: "\<And>c. \<not> isFlagged c \<Longrightarrow> \<not> isRevealed c \<Longrightarrow> revealFrame c (c\<lparr>isRevealed := True\<rparr>)"
    by (simp add: revealFrame_def)
  show "revealCell s board row col = Some (s', board') \<Longrightarrow> cellwise revealFrame (boards s board) (boards s' board')"
    using 1 2 3 by (rule reveal_cellwise(1))
  show "revealNeighbors s board ns = Some (s', board') \<Longrightarrow> cellwise revealFrame (boards s board) (boards s' board')"
    using 1 2 3 by (rule reveal_cellwise(2))
qed

lemma rectangular_cellAt:
  assumes "rectangular b" "isValidPosition row col (int (length b)) (int (length (b ! 0)))"
  shows "cellAt b row col = Some (b ! nat row ! nat col)"
proof -
  from assms(2) have inb: "0 \<le> row" "nat row < length b" "0 \<le> col" "nat col < length (b ! 0)"
    by (auto simp: isValidPosition_def)
  from assms(1) inb(2) have "length (b ! nat row) = length (b ! 0)"
    by (simp add: rectangular_def list_all_length)
  with inb show ?thesis by (simp add: cellAt_def)
qed

lemma reveal_total:
  "rectangular (boards s board) \<Longrightarrow> revealCell s board row col \<noteq> None"
  "rectangular (boards s board) \<Longrightarrow> revealNeighbors s board ns \<noteq> None"
proof (induction s board row col and s board ns rule: reveal_induct)
  case (cell s board row col)
  let ?b = "boards s board"
  show ?case
  proof (cases "?b = [] \<or> ?b ! 0 = [] \<or> \<not> isValidPosition row col (int (length ?b)) (int (length (?b ! 0)))
           \<or> (\<exists>t. cellAt ?b row col = Some t \<and> (isFlagged t \<or> isRevealed t))")
    case True
    then have "revealCell s board row col = Some (s, board)" by (rule revealCell_noop)
    then show ?thesis by simp
  next
    case False
    then have valid: "isValidPosition row col (int (length ?b)) (int (length (?b ! 0)))" by simp
    define t where "t = ?b ! nat row ! nat col"
    have t: "cellAt ?b row col = Some t"
      unfolding t_def using cell.prems valid by (rule rectangular_cellAt)
    with False have unrev: "\<not> isFlagged t" "\<not> isRevealed t" by auto
    have eq: "revealCell s board row col =
     (if content t = Mine \<or> positive (content t)
      then Some (pushBoard s (revealAt ?b row col), nextRef s)
      else revealNeighbors (pushBoard s (revealAt ?b row col)) (nextRef s)
             (getNeighbors row col (int (length ?b)) (int (length (?b ! 0)))))"
      using False t unrev by (intro revealCell_open) auto
    have "cellwise (\<lambda>_ _. True) ?b (revealAt ?b row col)"
      unfolding revealAt_def by (rule cellwise_updateCell) simp_all
    then have rect: "rectangular (revealAt ?b row col)"
      using cell.prems by (rule cellwise_rectangular)
    show ?thesis
    proof (cases "content t = Mine \<or> positive (content t)")
      case True
      with eq show ?thesis by simp
    next
      case nz: False
      have "revealNeighbors (pushBoard s (revealAt ?b row col)) (nextRef s)
             (getNeighbors row col (int (length ?b)) (int (length (?b ! 0)))) \<noteq> None"
        using False t unrev nz rect by (intro cell.IH[of t]) auto
      with eq nz show ?thesis by simp
    qed
  qed
next
  case (nil s board)
  then show ?case by simp
next
  case (cons s board n rest)
  from cons.IH(1)[OF cons.prems] obtain s1 b1 where
    r1: "revealCell s board (fst n) (snd n) = Some (s1, b1)" by auto
  have "cellwise (\<lambda>_ _. True) (boards s board) (boards s1 b1)"
    using r1 by (intro reveal_cellwise(1)[of "\<lambda>_ _. True"]) simp_all
  then have "rectangular (boards s1 b1)" using cons.prems by (rule cellwise_rectangular)
  from cons.IH(2)[OF r1 this] r1 show ?case by simp
qed

text \<open>
  Claim C10. The board returned by \<open>revealCell\<close> has the dimensions of the input, every
  cell keeps its content and its flag, and a cell that was revealed stays revealed: the
  only change is from hidden to revealed. On a rectangular board the call does return.
\<close>

theorem revealCell_frame:
  "(rectangular (boards s board) \<longrightarrow> revealCell s board row col \<noteq> None) \<and>
   (\<forall>s' board'. revealCell s board row col = Some (s', board') \<longrightarrow>
      map length (boards s' board') = map length (boards s board) \<and>
      (\<forall>i < length (boards s board). \<forall>j < length (boards s board ! i).
         content (boards s' board' ! i ! j) = content (boards s board ! i ! j) \<and>
         isFlagged (boards s' board' ! i ! j) = isFlagged (boards s board ! i ! j) \<and>
         (isRevealed (boards s board ! i ! j) \<longrightarrow> isRevealed (boards s' board' ! i ! j))))"
proof (intro conjI impI allI)
  assume "rectangular (boards s board)"
  then show "revealCell s board row col \<noteq> None" by (rule reveal_total(1))
next
  fix s' board'
  assume r: "revealCell s board row col = Some (s', board')"
  from reveal_frame(1)[OF r] show "map length (boards s' board') = map length (boards s board)"
    by (simp add: cellwise_explicit)
  fix i j
  assume "i < length (boards s board)" "j < length (boards s board ! i)"
  with reveal_frame(1)[OF r] have f: "revealFrame (boards s board ! i ! j) (boards s' board' ! i ! j)"
    by (simp add: cellwise_explicit)
  from f show "content (boards s' board' ! i ! j) = content (boards s board ! i ! j)"
    by (simp add: revealFrame_def)
  from f show "isFlagged (boards s' board' ! i ! j) = isFlagged (boards s board ! i ! j)"
    by (simp add: revealFrame_def)
  assume "isRevealed (boards s board ! i ! j)"
  with f show "isRevealed (boards s' board' ! i ! j)"
    by (simp add: revealFrame_def)
qed

theorem revealCell_frame_witness:
  "\<exists>s' board'. revealCell (storeOf board14) 0 0 0 = Some (s', board') \<and>
      map length (boards s' board') = [4] \<and>
      content (boards s' board' ! 0 ! 3) = Mine \<and>
      \<not> isFlagged (boards s' board' ! 0 ! 3)"
proof -
  have b: "boards (storeOf board14) 0 = board14" by (simp add: storeOf_def)
  have rect: "rectangular (boards (storeOf board14) 0)" unfolding b by code_simp
  from revealCell_frame[of "storeOf board14" 0 0 0] rect
  obtain s' board' where r: "revealCell (storeOf board14) 0 0 0 = Some (s', board')" by auto
  have l: "(0::nat) < length board14" "(3::nat) < length (board14 ! 0)" "map length board14 = [4]"
    "content (board14 ! 0 ! 3) = Mine" "\<not> isFlagged (board14 ! 0 ! 3)"
    by (simp_all add: board14_def mkCell_def)
  from revealCell_frame[of "storeOf board14" 0 0 0] r
  have "map length (boards s' board') = map length board14 \<and>
      (\<forall>i < length board14. \<forall>j < length (board14 ! i).
         content (boards s' board' ! i ! j) = content (board14 ! i ! j) \<and>
         isFlagged (boards s' board' ! i ! j) = isFlagged (board14 ! i ! j) \<and>
         (isRevealed (board14 ! i ! j) \<longrightarrow> isRevealed (boards s' board' ! i ! j)))"
    unfolding b by blast
  with l r show ?thesis by auto
qed

section \<open>Monotonicity and idempotence of revealCell\<close>

lemma revealCell_cases [case_names noop missing fresh]:
  obtains (noop) "revealCell s board row col = Some (s, board)"
  | (missing) "revealCell s board row col = None"
  | (fresh) t where
      "boards s board \<noteq> []" "boards s board ! 0 \<noteq> []"
      "isValidPosition row col (int (length (boards s board))) (int (length (boards s board ! 0)))"
      "cellAt (boards s board) row col = Some t" "\<not> isFlagged t" "\<not> isRevealed t"
      "revealCell s board row col =
         (if content t = Mine \<or> positive (content t)
          then Some (pushBoard s (revealAt (boards s board) row col), nextRef s)
          else revealNeighbors (pushBoard s (revealAt (boards s board) row col)) (nextRef s)
                 (getNeighbors row col (int (length (boards s board))) (int (length (boards s board ! 0)))))"
proof -
  let ?b = "boards s board"
  show thesis
  proof (cases "?b = [] \<or> ?b ! 0 = [] \<or> \<not> isValidPosition row col (int (length ?b)) (int (length (?b ! 0)))
           \<or> (\<exists>t. cellAt ?b row col = Some t \<and> (isFlagged t \<or> isRevealed t))")
    case True
    then have "revealCell s board row col = Some (s, board)" by (rule revealCell_noop)
    then show ?thesis by (rule noop)
  next
    case False
    show ?thesis
    proof (cases "cellAt ?b row col")
      case None
      with False have "revealCell s board row col = None" by (intro revealCell_missing) auto
      then show ?thesis by (rule missing)
    next
      case (Some t)
      with False have a: "?b \<noteq> []" "?b ! 0 \<noteq> []"
        "isValidPosition row col (int (length ?b)) (int (length (?b ! 0)))"
        "\<not> isFlagged t" "\<not> isRevealed t" by auto
      from a(1,2,3) Some a(4,5) show ?thesis
        by (rule fresh) (rule revealCell_open[OF a(1,2,3) Some a(4,5)])
    qed
  qed
qed

lemma cellAt_updateCell_same:
  "cellAt b row col = Some t \<Longrightarrow> cellAt (updateCell b row col f) row col = Some (f t)"
  by (auto simp: cellAt_def updateCell_def split: if_splits)

lemma revealCell_fresh_result:
  assumes "cellAt (boards s board) row col = Some t"
    and "(if content t = Mine \<or> positive (content t)
          then Some (pushBoard s (revealAt (boards s board) row col), nextRef s)
          else revealNeighbors (pushBoard s (revealAt (boards s board) row col)) (nextRef s) ns)
         = Some (s', board')"
  shows "cellwise revealFrame (revealAt (boards s board) row col) (boards s' board')"
proof (cases "content t = Mine \<or> positive (content t)")
  case True
  with assms(2) show ?thesis by (auto simp: cellwise_refl revealFrame_def)
next
  case False
  with assms(2) have "revealNeighbors (pushBoard s (revealAt (boards s board) row col)) (nextRef s) ns = Some (s', board')"
    by simp
  from reveal_frame(2)[OF this] show ?thesis by simp
qed

lemma revealCell_settles_target:
  assumes "revealCell s board row col = Some (s', board')"
  shows "revealCell s' board' row col = Some (s', board')"
proof (cases rule: revealCell_cases[of s board row col])
  case noop
  with assms show ?thesis by simp
next
  case missing
  with assms show ?thesis by simp
next
  case (fresh t)
  let ?b = "boards s board"
  from fresh(7) assms have "cellwise revealFrame (revealAt ?b row col) (boards s' board')"
    by (intro revealCell_fresh_result[OF fresh(4)]) simp
  moreover have "cellAt (revealAt ?b row col) row col = Some (t\<lparr>isRevealed := True\<rparr>)"
    unfolding revealAt_def using fresh(4) by (rule cellAt_updateCell_same)
  ultimately obtain y where "cellAt (boards s' board') row col = Some y" "revealFrame (t\<lparr>isRevealed := True\<rparr>) y"
    using cellwise_cellAt by blast
  then have "\<exists>u. cellAt (boards s' board') row col = Some u \<and> (isFlagged u \<or> isRevealed u)"
    by (auto simp: revealFrame_def)
  then show ?thesis by (intro revealCell_noop) blast
qed

lemma revealedCount_mono:
  assumes "cellwise revealFrame a b"
  shows "revealedCount a \<le> revealedCount b"
proof -
  have row: "length (filter isRevealed xs) \<le> length (filter isRevealed ys)"
    if "list_all2 revealFrame xs ys" for xs ys
    using that by (induction rule: list_all2_induct) (auto simp: revealFrame_def)
  have "list_all2 (list_all2 revealFrame) a b" using assms by (simp add: cellwise_def)
  then show ?thesis
    unfolding revealedCount_def
    by (induction rule: list_all2_induct) (auto dest: row intro: add_mono)
qed

text \<open>
  Claim C6. The board returned by \<open>revealCell\<close> has at least as many revealed cells as
  the input, and a second call at the same position returns the reference it is given
  and leaves the store untouched. On a rectangular board the call does return.
\<close>

theorem revealCell_monotone_idempotent:
  "(rectangular (boards s board) \<longrightarrow> revealCell s board row col \<noteq> None) \<and>
   (\<forall>s' board'. revealCell s board row col = Some (s', board') \<longrightarrow>
      revealedCount (boards s board) \<le> revealedCount (boards s' board') \<and>
      revealCell s' board' row col = Some (s', board'))"
proof (intro conjI impI allI)
  assume "rectangular (boards s board)"
  then show "revealCell s board row col \<noteq> None" by (rule reveal_total(1))
next
  fix s' board'
  assume r: "revealCell s board row col = Some (s', board')"
  from reveal_frame(1)[OF r] show "revealedCount (boards s board) \<le> revealedCount (boards s' board')"
    by (rule revealedCount_mono)
  from r show "revealCell s' board' row col = Some (s', board')"
    by (rule revealCell_settles_target)
qed

theorem revealCell_monotone_idempotent_witness:
  "\<exists>s' board'. revealCell (storeOf board14) 0 0 0 = Some (s', board') \<and>
      revealedCount board14 \<le> revealedCount (boards s' board') \<and>
      revealedCount (boards s' board') = 3 \<and>
      revealCell s' board' 0 0 = Some (s', board')"
proof -
  have rect: "rectangular (boards (storeOf board14) 0)" by code_simp
  have b: "boards (storeOf board14) 0 = board14" by (simp add: storeOf_def)
  have three: "case revealCell (storeOf board14) 0 0 0 of None \<Rightarrow> False | Some (s', board') \<Rightarrow> revealedCount (boards s' board') = 3"
    by code_simp
  from revealCell_monotone_idempotent[of "storeOf board14" 0 0 0] rect
  obtain s' board' where r: "revealCell (storeOf board14) 0 0 0 = Some (s', board')" by auto
  with revealCell_monotone_idempotent[of "storeOf board14" 0 0 0] b three
  show ?thesis by auto
qed

section \<open>Flagged and revealed exclude each other\<close>

lemma cellwise_list_all:
  assumes "cellwise R a b" "list_all (list_all P) a" "\<And>c c'. R c c' \<Longrightarrow> P c \<Longrightarrow> Q c'"
  shows "list_all (list_all Q) b"
proof -
  have row: "list_all Q ys" if "list_all2 R xs ys" "list_all P xs" for xs ys
    using that by (induction rule: list_all2_induct) (auto intro: assms(3))
  have "list_all2 (list_all2 R) a b" using assms(1) by (simp add: cellwise_def)
  then show ?thesis using assms(2)
    by (induction rule: list_all2_induct) (auto intro: row)
qed

lemma revealCell_exclusion:
  assumes "revealCell s board row col = Some (s', board')" "noFlaggedRevealed (boards s board)"
  shows "noFlaggedRevealed (boards s' board')"
proof -
  have "cellwise flagExclusion (boards s board) (boards s' board')"
    using assms(1) by (intro reveal_cellwise(1)[of flagExclusion]) (auto simp: flagExclusion_def)
  then show ?thesis
    using assms(2) unfolding noFlaggedRevealed_def
    by (rule cellwise_list_all) (simp add: flagExclusion_def)
qed

lemma toggleFlag_cases [case_names noop missing fresh]:
  obtains (noop) "toggleFlag s board row col = Some (s, board)"
  | (missing) "toggleFlag s board row col = None"
      "boards s board \<noteq> []" "boards s board ! 0 \<noteq> []"
      "isValidPosition row col (int (length (boards s board))) (int (length (boards s board ! 0)))"
      "cellAt (boards s board) row col = None"
  | (fresh) t where
      "cellAt (boards s board) row col = Some t" "\<not> isRevealed t"
      "toggleFlag s board row col =
         Some (pushBoard s (updateCell (boards s board) row col (\<lambda>cell. cell\<lparr>isFlagged := \<not> isFlagged cell\<rparr>)),
               nextRef s)"
proof (cases "cellAt (boards s board) row col")
  case None
  then show ?thesis
    using noop missing
    by (cases "toggleFlag s board row col = Some (s, board)")
       (auto simp: toggleFlag_def Let_def split: if_splits)
next
  case (Some t)
  then show ?thesis
    using noop fresh[of t]
    by (cases "toggleFlag s board row col = Some (s, board)")
       (auto simp: toggleFlag_def Let_def alloc_def modify_def pushBoard_def split: if_splits)
qed

lemma toggleFlag_exclusion:
  assumes "toggleFlag s board row col = Some (s', board')" "noFlaggedRevealed (boards s board)"
  shows "noFlaggedRevealed (boards s' board')"
proof (cases rule: toggleFlag_cases[of s board row col])
  case noop
  with assms show ?thesis by simp
next
  case missing
  with assms show ?thesis by simp
next
  case (fresh t)
  have "cellwise flagExclusion (boards s board)
          (updateCell (boards s board) row col (\<lambda>cell. cell\<lparr>isFlagged := \<not> isFlagged cell\<rparr>))"
    by (rule cellwise_updateCell) (use fresh(1,2) in \<open>auto simp: flagExclusion_def\<close>)
  then have "noFlaggedRevealed (updateCell (boards s board) row col (\<lambda>cell. cell\<lparr>isFlagged := \<not> isFlagged cell\<rparr>))"
    using assms(2) unfolding noFlaggedRevealed_def
    by (rule cellwise_list_all) (simp add: flagExclusion_def)
  with fresh(3) assms(1) show ?thesis by auto
qed

lemma toggleFlag_total:
  assumes "rectangular (boards s board)"
  shows "toggleFlag s board row col \<noteq> None"
proof (cases rule: toggleFlag_cases[of s board row col])
  case noop
  then show ?thesis by simp
next
  case missing
  with rectangular_cellAt[OF assms missing(4)] show ?thesis by simp
next
  case (fresh t)
  then show ?thesis by simp
qed

lemma revealAllMines_board:
  "boards (fst (revealAllMines s board)) (snd (revealAllMines s board)) =
     map (map (\<lambda>cell. cell\<lparr>isRevealed := (if content cell = Mine then True else isRevealed cell)\<rparr>))
       (boards s board)"
  by (simp add: revealAllMines_def alloc_def)

text \<open>
  Claim C1, amended. On a board in which no cell is both flagged and revealed,
  \<open>revealCell\<close> and \<open>toggleFlag\<close> return a board with the same property.
  \<open>revealAllMines\<close> reveals every mine, flagged or not, so its result has the property
  exactly when no mine cell of the input is flagged.
\<close>

theorem flag_reveal_exclusion_preserved:
  assumes "noFlaggedRevealed (boards s board)"
  shows "(rectangular (boards s board) \<longrightarrow>
            revealCell s board row col \<noteq> None \<and> toggleFlag s board row col \<noteq> None)
       \<and> (\<forall>s' board'. revealCell s board row col = Some (s', board') \<longrightarrow>
            noFlaggedRevealed (boards s' board'))
       \<and> (\<forall>s' board'. toggleFlag s board row col = Some (s', board') \<longrightarrow>
            noFlaggedRevealed (boards s' board'))
       \<and> (noFlaggedRevealed (boards (fst (revealAllMines s board)) (snd (revealAllMines s board)))
            \<longleftrightarrow> list_all (list_all (\<lambda>cell. \<not> (content cell = Mine \<and> isFlagged cell))) (boards s board))"
proof (intro conjI impI allI)
  assume r: "rectangular (boards s board)"
  then show "revealCell s board row col \<noteq> None" by (rule reveal_total(1))
  from r show "toggleFlag s board row col \<noteq> None" by (rule toggleFlag_total)
next
  fix s' board'
  assume "revealCell s board row col = Some (s', board')"
  then show "noFlaggedRevealed (boards s' board')" using assms by (rule revealCell_exclusion)
next
  fix s' board'
  assume "toggleFlag s board row col = Some (s', board')"
  then show "noFlaggedRevealed (boards s' board')" using assms by (rule toggleFlag_exclusion)
next
  show "noFlaggedRevealed (boards (fst (revealAllMines s board)) (snd (revealAllMines s board)))
      \<longleftrightarrow> list_all (list_all (\<lambda>cell. \<not> (content cell = Mine \<and> isFlagged cell))) (boards s board)"
    using assms unfolding revealAllMines_board noFlaggedRevealed_def
    by (auto simp: list_all_iff)
qed

text \<open>
  Claim C1 as stated fails for \<open>revealAllMines\<close>: a hidden flagged mine satisfies the
  invariant and comes out flagged and revealed.
\<close>

theorem revealAllMines_breaks_exclusion:
  "noFlaggedRevealed [[mkCell Mine False True]] \<and>
   \<not> noFlaggedRevealed
       (boards (fst (revealAllMines (storeOf [[mkCell Mine False True]]) 0))
               (snd (revealAllMines (storeOf [[mkCell Mine False True]]) 0)))"
  by (simp add: revealAllMines_board noFlaggedRevealed_def mkCell_def storeOf_def)

theorem flag_reveal_exclusion_preserved_witness:
  "noFlaggedRevealed board14 \<and>
   (\<exists>s' board'. revealCell (storeOf board14) 0 0 0 = Some (s', board') \<and> noFlaggedRevealed (boards s' board')) \<and>
   (\<exists>s' board'. toggleFlag (storeOf board14) 0 0 3 = Some (s', board') \<and> noFlaggedRevealed (boards s' board')) \<and>
   noFlaggedRevealed (boards (fst (revealAllMines (storeOf board14) 0)) (snd (revealAllMines (storeOf board14) 0)))"
proof -
  have b: "boards (storeOf board14) 0 = board14" by (simp add: storeOf_def)
  have inv: "noFlaggedRevealed (boards (storeOf board14) 0)" unfolding b by code_simp
  have rect: "rectangular (boards (storeOf board14) 0)" unfolding b by code_simp
  have nomine: "list_all (list_all (\<lambda>cell. \<not> (content cell = Mine \<and> isFlagged cell))) (boards (storeOf board14) 0)"
    unfolding b by code_simp
  note inst = flag_reveal_exclusion_preserved[OF inv, of 0]
  from inst[of 0] rect obtain s1 b1 where r1: "revealCell (storeOf board14) 0 0 0 = Some (s1, b1)" by auto
  from inst[of 3] rect obtain s2 b2 where r2: "toggleFlag (storeOf board14) 0 0 3 = Some (s2, b2)" by auto
  from inst[of 0] r1 have "noFlaggedRevealed (boards s1 b1)" by blast
  moreover from inst[of 3] r2 have "noFlaggedRevealed (boards s2 b2)" by blast
  moreover from inst[of 0] nomine
  have "noFlaggedRevealed (boards (fst (revealAllMines (storeOf board14) 0)) (snd (revealAllMines (storeOf board14) 0)))"
    by blast
  ultimately show ?thesis using inv r1 r2 unfolding b by blast
qed


section \<open>revealAllMines\<close>

text \<open>
  Claim C9. \<open>revealAllMines\<close> returns a new board of the same shape in which every mine
  cell is revealed, every other cell has the revealed state it had, and every cell has the
  content and the flag it had. The boards already in the store are left as they were.
\<close>

theorem revealAllMines_frame:
  "snd (revealAllMines s board) = nextRef s \<and>
   (\<forall>r. r \<noteq> nextRef s \<longrightarrow> boards (fst (revealAllMines s board)) r = boards s r) \<and>
   map length (boards (fst (revealAllMines s board)) (snd (revealAllMines s board))) = map length (boards s board) \<and>
   (\<forall>i < length (boards s board). \<forall>j < length (boards s board ! i).
      content (boards (fst (revealAllMines s board)) (snd (revealAllMines s board)) ! i ! j)
        = content (boards s board ! i ! j) \<and>
      isFlagged (boards (fst (revealAllMines s board)) (snd (revealAllMines s board)) ! i ! j)
        = isFlagged (boards s board ! i ! j) \<and>
      (content (boards s board ! i ! j) = Mine \<longrightarrow>
         isRevealed (boards (fst (revealAllMines s board)) (snd (revealAllMines s board)) ! i ! j)) \<and>
      (content (boards s board ! i ! j) \<noteq> Mine \<longrightarrow>
         isRevealed (boards (fst (revealAllMines s board)) (snd (revealAllMines s board)) ! i ! j)
           = isRevealed (boards s board ! i ! j)))"
proof (intro conjI allI impI)
  show "snd (revealAllMines s board) = nextRef s" by (simp add: revealAllMines_def alloc_def)
  show "\<And>r. r \<noteq> nextRef s \<Longrightarrow> boards (fst (revealAllMines s board)) r = boards s r"
    by (simp add: revealAllMines_def alloc_def)
  show "map length (boards (fst (revealAllMines s board)) (snd (revealAllMines s board))) = map length (boards s board)"
    unfolding revealAllMines_board by (simp add: comp_def)
next
  fix i j
  assume ij: "i < length (boards s board)" "j < length (boards s board ! i)"
  then have c: "boards (fst (revealAllMines s board)) (snd (revealAllMines s board)) ! i ! j
      = (boards s board ! i ! j)\<lparr>isRevealed :=
           (if content (boards s board ! i ! j) = Mine then True else isRevealed (boards s board ! i ! j))\<rparr>"
    unfolding revealAllMines_board by simp
  show "content (boards (fst (revealAllMines s board)) (snd (revealAllMines s board)) ! i ! j)
        = content (boards s board ! i ! j)"
    unfolding c by simp
  show "isFlagged (boards (fst (revealAllMines s board)) (snd (revealAllMines s board)) ! i ! j)
        = isFlagged (boards s board ! i ! j)"
    unfolding c by simp
  show "isRevealed (boards (fst (revealAllMines s board)) (snd (revealAllMines s board)) ! i ! j)"
    if "content (boards s board ! i ! j) = Mine"
    unfolding c using that by simp
  show "isRevealed (boards (fst (revealAllMines s board)) (snd (revealAllMines s board)) ! i ! j)
           = isRevealed (boards s board ! i ! j)"
    if "content (boards s board ! i ! j) \<noteq> Mine"
    unfolding c using that by simp
qed

theorem revealAllMines_frame_witness:
  "isRevealed (boards (fst (revealAllMines (storeOf board14) 0)) (snd (revealAllMines (storeOf board14) 0)) ! 0 ! 3)
   \<and> \<not> isRevealed (boards (fst (revealAllMines (storeOf board14) 0)) (snd (revealAllMines (storeOf board14) 0)) ! 0 ! 2)
   \<and> boards (fst (revealAllMines (storeOf board14) 0)) 0 = board14"
proof -
  have b: "boards (storeOf board14) 0 = board14" "nextRef (storeOf board14) = 1" by (simp_all add: storeOf_def)
  have l: "(0::nat) < length (boards (storeOf board14) 0)" "(3::nat) < length (boards (storeOf board14) 0 ! 0)"
     "(2::nat) < length (boards (storeOf board14) 0 ! 0)"
    unfolding b by (simp_all add: board14_def)
  have m: "content (boards (storeOf board14) 0 ! 0 ! 3) = Mine" "content (boards (storeOf board14) 0 ! 0 ! 2) \<noteq> Mine"
    "\<not> isRevealed (boards (storeOf board14) 0 ! 0 ! 2)"
    unfolding b by (simp_all add: board14_def mkCell_def)
  from revealAllMines_frame[of "storeOf board14" 0] l m b show ?thesis
    by (metis zero_neq_one)
qed

section \<open>checkGameWon\<close>

lemma checkGameWon_set:
  "checkGameWon board \<longleftrightarrow>
     length board > 0 \<and> length (board ! 0) > 0 \<and>
     (\<forall>row \<in> set board. \<forall>cell \<in> set row. content cell \<noteq> Mine \<longrightarrow> isRevealed cell)"
proof -
  have "list_ex (\<lambda>row. list_ex (\<lambda>cell. content cell \<noteq> Mine \<and> \<not> isRevealed cell) row) board
     \<longleftrightarrow> \<not> (\<forall>row \<in> set board. \<forall>cell \<in> set row. content cell \<noteq> Mine \<longrightarrow> isRevealed cell)"
    by (simp add: list_ex_iff)
  then show ?thesis unfolding checkGameWon_def by simp blast
qed

lemma checkGameWon_nth:
  "checkGameWon board \<longleftrightarrow>
     length board > 0 \<and> length (board ! 0) > 0 \<and>
     (\<forall>i < length board. \<forall>j < length (board ! i). content (board ! i ! j) \<noteq> Mine \<longrightarrow> isRevealed (board ! i ! j))"
proof -
  have "(\<forall>row \<in> set board. \<forall>cell \<in> set row. content cell \<noteq> Mine \<longrightarrow> isRevealed cell)
    \<longleftrightarrow> (\<forall>i < length board. \<forall>j < length (board ! i). content (board ! i ! j) \<noteq> Mine \<longrightarrow> isRevealed (board ! i ! j))"
    by (simp add: all_set_conv_all_nth)
  then show ?thesis by (simp only: checkGameWon_set)
qed

lemma map_length_eq_nth:
  assumes "map length b' = map length b"
  shows "length b' = length b" "i < length b \<Longrightarrow> length (b' ! i) = length (b ! i)"
proof -
  show len: "length b' = length b" using assms by (metis length_map)
  assume "i < length b"
  moreover have "map length b' ! i = map length b ! i" using assms by simp
  ultimately show "length (b' ! i) = length (b ! i)" using len by simp
qed

text \<open>
  Claim C7. \<open>checkGameWon\<close> holds exactly when the board has a row, its first row has a
  column, and every cell that is not a mine is revealed. Two boards of the same shape and
  contents whose non-mine cells agree on \<open>isRevealed\<close> get the same answer, whatever the
  flags and the revealed state of the mines are, and the empty board is not won.
\<close>

theorem checkGameWon_characterisation:
  "(checkGameWon board \<longleftrightarrow>
      length board > 0 \<and> length (board ! 0) > 0 \<and>
      (\<forall>row \<in> set board. \<forall>cell \<in> set row. content cell \<noteq> Mine \<longrightarrow> isRevealed cell))
   \<and> (\<forall>board'.
        map length board' = map length board \<and>
        (\<forall>i < length board. \<forall>j < length (board ! i).
           content (board' ! i ! j) = content (board ! i ! j) \<and>
           (content (board ! i ! j) \<noteq> Mine \<longrightarrow> isRevealed (board' ! i ! j) = isRevealed (board ! i ! j)))
        \<longrightarrow> checkGameWon board' = checkGameWon board)
   \<and> \<not> checkGameWon []"
proof (intro conjI allI impI)
  show "checkGameWon board \<longleftrightarrow>
      length board > 0 \<and> length (board ! 0) > 0 \<and>
      (\<forall>row \<in> set board. \<forall>cell \<in> set row. content cell \<noteq> Mine \<longrightarrow> isRevealed cell)"
    by (rule checkGameWon_set)
  show "\<not> checkGameWon []" by (simp add: checkGameWon_def)
next
  fix board' :: Board
  assume a: "map length board' = map length board \<and>
        (\<forall>i < length board. \<forall>j < length (board ! i).
           content (board' ! i ! j) = content (board ! i ! j) \<and>
           (content (board ! i ! j) \<noteq> Mine \<longrightarrow> isRevealed (board' ! i ! j) = isRevealed (board ! i ! j)))"
  then have ml: "map length board' = map length board" by blast
  have len: "length board' = length board"
    using ml by (rule map_length_eq_nth(1))
  have rows: "length (board' ! i) = length (board ! i)" if "i < length board" for i
    using ml that by (rule map_length_eq_nth(2))
  have cells: "(content (board' ! i ! j) \<noteq> Mine \<longrightarrow> isRevealed (board' ! i ! j))
             \<longleftrightarrow> (content (board ! i ! j) \<noteq> Mine \<longrightarrow> isRevealed (board ! i ! j))"
    if "i < length board" "j < length (board ! i)" for i j
    using a that by auto
  have first: "length (board' ! 0) = length (board ! 0)" if "0 < length board"
    using rows that by simp
  have body: "(\<forall>i < length board. \<forall>j < length (board' ! i).
                 content (board' ! i ! j) \<noteq> Mine \<longrightarrow> isRevealed (board' ! i ! j))
           \<longleftrightarrow> (\<forall>i < length board. \<forall>j < length (board ! i).
                 content (board ! i ! j) \<noteq> Mine \<longrightarrow> isRevealed (board ! i ! j))"
  proof (intro iffI allI impI)
    fix i j
    assume h: "\<forall>i < length board. \<forall>j < length (board' ! i).
                 content (board' ! i ! j) \<noteq> Mine \<longrightarrow> isRevealed (board' ! i ! j)"
      and ij: "i < length board" "j < length (board ! i)" and m: "content (board ! i ! j) \<noteq> Mine"
    from ij rows[OF ij(1)] h have "content (board' ! i ! j) \<noteq> Mine \<longrightarrow> isRevealed (board' ! i ! j)"
      by simp
    with cells[OF ij] m show "isRevealed (board ! i ! j)" by blast
  next
    fix i j
    assume h: "\<forall>i < length board. \<forall>j < length (board ! i).
                 content (board ! i ! j) \<noteq> Mine \<longrightarrow> isRevealed (board ! i ! j)"
      and i: "i < length board" and j: "j < length (board' ! i)" and m: "content (board' ! i ! j) \<noteq> Mine"
    from j rows[OF i] have j': "j < length (board ! i)" by simp
    from i j' h have "content (board ! i ! j) \<noteq> Mine \<longrightarrow> isRevealed (board ! i ! j)"
      by simp
    with cells[OF i j'] m show "isRevealed (board' ! i ! j)" by blast
  qed
  show "checkGameWon board' = checkGameWon board"
  proof (cases "0 < length board")
    case True
    show ?thesis
      unfolding checkGameWon_nth len body first[OF True] ..
  next
    case False
    then show ?thesis unfolding checkGameWon_nth len by simp
  qed
qed

theorem checkGameWon_characterisation_witness:
  "checkGameWon wonBoard
   \<and> checkGameWon [[mkCell Mine True True, mkCell (Count 1) True False]]
   \<and> \<not> checkGameWon [[mkCell Mine True False, mkCell (Count 1) False False]]
   \<and> \<not> checkGameWon [[]]"
proof -
  have 1: "length wonBoard > 0 \<and> length (wonBoard ! 0) > 0 \<and>
      (\<forall>row \<in> set wonBoard. \<forall>cell \<in> set row. content cell \<noteq> Mine \<longrightarrow> isRevealed cell)"
    by (simp add: wonBoard_def mkCell_def)
  have 2: "map length [[mkCell Mine True True, mkCell (Count 1) True False]] = map length wonBoard \<and>
        (\<forall>i < length wonBoard. \<forall>j < length (wonBoard ! i).
           content ([[mkCell Mine True True, mkCell (Count 1) True False]] ! i ! j) = content (wonBoard ! i ! j) \<and>
           (content (wonBoard ! i ! j) \<noteq> Mine \<longrightarrow>
              isRevealed ([[mkCell Mine True True, mkCell (Count 1) True False]] ! i ! j) = isRevealed (wonBoard ! i ! j)))"
    by (simp add: wonBoard_def mkCell_def less_Suc_eq)
  have 3: "\<not> (\<forall>row \<in> set [[mkCell Mine True False, mkCell (Count 1) False False]]. \<forall>cell \<in> set row.
              content cell \<noteq> Mine \<longrightarrow> isRevealed cell)"
    by (simp add: mkCell_def)
  have 4: "\<not> length ([[]] ! 0 :: CellState list) > 0" by simp
  from checkGameWon_characterisation[of wonBoard] 1 have w: "checkGameWon wonBoard" by blast
  from checkGameWon_characterisation[of wonBoard] 2 w
  have "checkGameWon [[mkCell Mine True True, mkCell (Count 1) True False]]" by blast
  moreover from checkGameWon_characterisation[of "[[mkCell Mine True False, mkCell (Count 1) False False]]"] 3
  have "\<not> checkGameWon [[mkCell Mine True False, mkCell (Count 1) False False]]" by blast
  moreover from checkGameWon_characterisation[of "[[]]"] 4 have "\<not> checkGameWon [[]]" by blast
  ultimately show ?thesis using w by blast
qed


section \<open>calculateNumbers\<close>

lemma cellAt_updateCell:
  "cellAt (updateCell g r c f) i j =
     (if i = r \<and> j = c then map_option f (cellAt g i j) else cellAt g i j)"
proof (cases "0 \<le> r \<and> nat r < length g \<and> 0 \<le> c \<and> nat c < length (g ! nat r)")
  case False
  then show ?thesis by (auto simp: cellAt_def updateCell_def)
next
  case True
  show ?thesis
  proof (cases "i = r")
    case ir: True
    with True show ?thesis
      by (auto simp: cellAt_def updateCell_def nat_eq_iff)
  next
    case False
    then have "0 \<le> i \<Longrightarrow> nat i \<noteq> nat r" using True by auto
    with True False show ?thesis
      by (auto simp: cellAt_def updateCell_def)
  qed
qed

lemma updateCell_shape: "map length (updateCell g r c f) = map length g"
proof -
  have "cellwise (\<lambda>_ _. True) g (updateCell g r c f)"
    by (rule cellwise_updateCell) simp_all
  then show ?thesis by (simp add: cellwise_explicit)
qed

lemma applyAt_pair: "applyAt h (r, c) g = updateCell g r c (h r c)"
  by (simp add: applyAt_def)

lemma fold_applyAt_shape: "map length (fold (applyAt h) ps g) = map length g"
proof (induction ps arbitrary: g)
  case Nil
  show ?case by simp
next
  case (Cons p ps)
  then show ?case by (cases p) (simp add: applyAt_pair updateCell_shape)
qed

lemma fold_applyAt_cellAt:
  assumes "\<And>r c x. h r c (h r c x) = h r c x"
  shows "cellAt (fold (applyAt h) ps g) i j =
     map_option (\<lambda>x. if (i, j) \<in> set ps then h i j x else x) (cellAt g i j)"
proof (induction ps arbitrary: g)
  case Nil
  then show ?case by (simp add: option.map_ident)
next
  case (Cons p ps)
  show ?case
  proof (cases "p = (i, j)")
    case True
    then show ?thesis
      by (simp add: Cons.IH applyAt_pair cellAt_updateCell option.map_comp comp_def assms cong: if_cong)
  next
    case False
    obtain r c where p: "p = (r, c)" by (cases p)
    with False have "\<not> (i = r \<and> j = c)" by auto
    with False p show ?thesis
      by (auto simp: Cons.IH applyAt_pair cellAt_updateCell cong: if_cong)
  qed
qed

lemma getNeighbors_valid:
  "(r, c) \<in> set (getNeighbors row col rows cols) \<Longrightarrow> isValidPosition r c rows cols"
  by (auto simp: getNeighbors_def)

lemma mineNeighbors_total:
  assumes "\<And>r c. (r, c) \<in> set ps \<Longrightarrow> cellAt b r c \<noteq> None"
  shows "mineNeighbors b ps = Some (filter (\<lambda>(r, c). content (the (cellAt b r c)) = Mine) ps)"
  using assms
proof (induction ps)
  case Nil
  then show ?case by simp
next
  case (Cons p ps)
  obtain r c where p: "p = (r, c)" by (cases p)
  from Cons.prems[of r c] p obtain x where x: "cellAt b r c = Some x" by auto
  have "mineNeighbors b ps = Some (filter (\<lambda>(r, c). content (the (cellAt b r c)) = Mine) ps)"
    by (rule Cons.IH) (simp add: Cons.prems)
  then show ?case by (simp add: p x)
qed

lemma countAdjacentMines_rect:
  assumes "rectangular b"
  shows "countAdjacentMines b row col =
     Some (if b = [] \<or> b ! 0 = [] \<or> \<not> isValidPosition row col (int (length b)) (int (length (b ! 0))) then 0
           else int (length (filter (\<lambda>(r, c). content (the (cellAt b r c)) = Mine)
                        (getNeighbors row col (int (length b)) (int (length (b ! 0)))))))"
proof -
  have "mineNeighbors b (getNeighbors row col (int (length b)) (int (length (b ! 0))))
      = Some (filter (\<lambda>(r, c). content (the (cellAt b r c)) = Mine)
                (getNeighbors row col (int (length b)) (int (length (b ! 0)))))"
  proof (rule mineNeighbors_total)
    fix r c assume "(r, c) \<in> set (getNeighbors row col (int (length b)) (int (length (b ! 0))))"
    then have "isValidPosition r c (int (length b)) (int (length (b ! 0)))" by (rule getNeighbors_valid)
    with assms show "cellAt b r c \<noteq> None" by (simp add: rectangular_cellAt)
  qed
  then show ?thesis by (simp add: countAdjacentMines_def Let_def)
qed

lemma boards_setBoard [simp]: "boards (setBoard s r b) r' = (if r' = r then b else boards s r')"
  by (simp add: setBoard_def)

lemma nextRef_setBoard [simp]: "nextRef (setBoard s r b) = nextRef s"
  by (simp add: setBoard_def)

lemma setBoard_setBoard [simp]: "setBoard (setBoard s r a) r b = setBoard s r b"
  by (simp add: setBoard_def)

lemma modify_setBoard: "modify s r f = setBoard s r (f (boards s r))"
  by (simp add: modify_def setBoard_def)

lemma updateCell_cong:
  assumes "\<And>x. cellAt g r c = Some x \<Longrightarrow> f x = f' x"
  shows "updateCell g r c f = updateCell g r c f'"
  using assms by (auto simp: updateCell_def cellAt_def)

lemma updateCell_id:
  assumes "\<And>x. cellAt g r c = Some x \<Longrightarrow> f x = x"
  shows "updateCell g r c f = g"
  using assms by (auto simp: updateCell_def cellAt_def)

lemma cellAt_fold_applyAt_None:
  "cellAt (fold (applyAt h) ps g) i j = None \<longleftrightarrow> cellAt g i j = None"
proof (induction ps arbitrary: g)
  case Nil
  show ?case by simp
next
  case (Cons p ps)
  then show ?case by (cases p) (simp add: applyAt_pair cellAt_updateCell)
qed

lemma calculateLoop_result:
  assumes "board \<noteq> newBoard"
    and "\<And>r c. (r, c) \<in> set ps \<Longrightarrow> cellAt (boards s newBoard) r c \<noteq> None"
    and "\<And>r c. (r, c) \<in> set ps \<Longrightarrow> countAdjacentMines (boards s board) r c \<noteq> None"
  shows "calculateLoop s board newBoard ps =
     Some (setBoard s newBoard (fold (applyAt (numberCell (boards s board))) ps (boards s newBoard)))"
  using assms(2,3)
proof (induction ps arbitrary: s)
  case Nil
  show ?case by (simp add: setBoard_def)
next
  case (Cons p ps)
  obtain row col where p: "p = (row, col)" by (cases p)
  let ?g = "boards s newBoard"
  let ?b = "boards s board"
  from Cons.prems(1)[of row col] p obtain x where x: "cellAt ?g row col = Some x" by auto
  from Cons.prems(2)[of row col] p obtain n where n: "countAdjacentMines ?b row col = Some n" by auto
  have step: "applyAt (numberCell ?b) (row, col) ?g =
      (if content x \<noteq> Mine then updateCell ?g row col (\<lambda>cell. cell\<lparr>content := Count n\<rparr>) else ?g)"
  proof (cases "content x \<noteq> Mine")
    case True
    have "updateCell ?g row col (numberCell ?b row col) = updateCell ?g row col (\<lambda>cell. cell\<lparr>content := Count n\<rparr>)"
      by (rule updateCell_cong) (use x True n in \<open>simp add: numberCell_def\<close>)
    with True show ?thesis by (simp add: applyAt_pair)
  next
    case False
    have "updateCell ?g row col (numberCell ?b row col) = ?g"
      by (rule updateCell_id) (use x False in \<open>simp add: numberCell_def\<close>)
    with False show ?thesis by (simp add: applyAt_pair)
  qed
  let ?g1 = "applyAt (numberCell ?b) (row, col) ?g"
  let ?s1 = "setBoard s newBoard ?g1"
  have b1: "boards ?s1 board = ?b" "boards ?s1 newBoard = ?g1" using assms(1) by simp_all
  have ih: "calculateLoop ?s1 board newBoard ps =
     Some (setBoard ?s1 newBoard (fold (applyAt (numberCell (boards ?s1 board))) ps (boards ?s1 newBoard)))"
  proof (rule Cons.IH)
    fix r c assume rc: "(r, c) \<in> set ps"
    then have "cellAt ?g r c \<noteq> None" using Cons.prems(1)[of r c] by simp
    then show "cellAt (boards ?s1 newBoard) r c \<noteq> None"
      unfolding b1 by (auto simp: applyAt_pair cellAt_updateCell)
    from rc show "countAdjacentMines (boards ?s1 board) r c \<noteq> None"
      unfolding b1 using Cons.prems(2)[of r c] by simp
  qed
  have call: "calculateLoop s board newBoard (p # ps) = calculateLoop ?s1 board newBoard ps"
  proof (cases "content x \<noteq> Mine")
    case True
    then show ?thesis
      unfolding p using x n step by (simp add: modify_setBoard)
  next
    case False
    have "?s1 = s" using step False by (simp add: setBoard_def)
    with False show ?thesis unfolding p using x by simp
  qed
  show ?case
    unfolding call ih b1 by (simp add: p)
qed

lemma placeMinesLoop_result:
  assumes "\<And>r c. (r, c) \<in> set ps \<Longrightarrow> cellAt (boards s newBoard) r c \<noteq> None"
  shows "placeMinesLoop s newBoard ps =
     Some (setBoard s newBoard (fold (applyAt (\<lambda>_ _ cell. cell\<lparr>content := Mine\<rparr>)) ps (boards s newBoard)))"
  using assms
proof (induction ps arbitrary: s)
  case Nil
  show ?case by (simp add: setBoard_def)
next
  case (Cons p ps)
  obtain row col where p: "p = (row, col)" by (cases p)
  let ?g = "boards s newBoard"
  from Cons.prems[of row col] p obtain x where x: "cellAt ?g row col = Some x" by auto
  let ?g1 = "applyAt (\<lambda>_ _ cell. cell\<lparr>content := Mine\<rparr>) (row, col) ?g"
  let ?s1 = "setBoard s newBoard ?g1"
  have ih: "placeMinesLoop ?s1 newBoard ps =
     Some (setBoard ?s1 newBoard (fold (applyAt (\<lambda>_ _ cell. cell\<lparr>content := Mine\<rparr>)) ps (boards ?s1 newBoard)))"
  proof (rule Cons.IH)
    fix r c assume "(r, c) \<in> set ps"
    then have "cellAt ?g r c \<noteq> None" using Cons.prems[of r c] by simp
    then show "cellAt (boards ?s1 newBoard) r c \<noteq> None"
      by (auto simp: applyAt_pair cellAt_updateCell)
  qed
  have call: "placeMinesLoop s newBoard (p # ps) = placeMinesLoop ?s1 newBoard ps"
    unfolding p using x by (simp add: modify_setBoard applyAt_pair)
  show ?case unfolding call ih by (simp add: p)
qed

lemma rectangular_row_length:
  "rectangular b \<Longrightarrow> i < length b \<Longrightarrow> length (b ! i) = length (b ! 0)"
  by (simp add: rectangular_def list_all_length)

lemma cellAt_nth:
  "i < length b \<Longrightarrow> j < length (b ! i) \<Longrightarrow> cellAt b (int i) (int j) = Some (b ! i ! j)"
  by (simp add: cellAt_def)

lemma allPositions_mem:
  "(r, c) \<in> set [(row, col). row \<leftarrow> [0..rows - 1], col \<leftarrow> [0..cols - 1]]
     \<longleftrightarrow> isValidPosition r c rows cols"
  by (force simp: isValidPosition_def)

lemma calculateNumbers_grid:
  assumes rect: "rectangular (boards s board)" and ref: "board \<noteq> nextRef s"
    and ne: "boards s board \<noteq> []" "boards s board ! 0 \<noteq> []"
  shows "calculateNumbers s board =
     Some (setBoard (pushBoard s (boards s board)) (nextRef s)
             (fold (applyAt (numberCell (boards s board)))
                [(row, col). row \<leftarrow> [0..int (length (boards s board)) - 1],
                             col \<leftarrow> [0..int (length (boards s board ! 0)) - 1]]
                (boards s board)),
           nextRef s)"
proof -
  let ?b = "boards s board"
  let ?ps = "[(row, col). row \<leftarrow> [0..int (length ?b) - 1], col \<leftarrow> [0..int (length (?b ! 0)) - 1]]"
  let ?s1 = "pushBoard s ?b"
  have b1: "boards ?s1 board = ?b" "boards ?s1 (nextRef s) = ?b" using ref by simp_all
  have "calculateLoop ?s1 board (nextRef s) ?ps =
     Some (setBoard ?s1 (nextRef s) (fold (applyAt (numberCell (boards ?s1 board))) ?ps (boards ?s1 (nextRef s))))"
  proof (rule calculateLoop_result[OF ref])
    fix r c assume "(r, c) \<in> set ?ps"
    then have v: "isValidPosition r c (int (length ?b)) (int (length (?b ! 0)))"
      by (simp only: allPositions_mem)
    with rect show "cellAt (boards ?s1 (nextRef s)) r c \<noteq> None"
      unfolding b1 by (simp add: rectangular_cellAt)
    show "countAdjacentMines (boards ?s1 board) r c \<noteq> None"
      unfolding b1 by (simp add: countAdjacentMines_rect[OF rect])
  qed
  then have loop: "calculateLoop ?s1 board (nextRef s) ?ps =
     Some (setBoard ?s1 (nextRef s) (fold (applyAt (numberCell ?b)) ?ps ?b))"
    unfolding b1 .
  have al: "alloc s ?b = (?s1, nextRef s)" by (simp add: alloc_def pushBoard_def)
  show ?thesis
    unfolding calculateNumbers_def Let_def al using ne loop by simp
qed

lemma numberCell_idem: "numberCell b r c (numberCell b r c x) = numberCell b r c x"
  by (simp add: numberCell_def)

lemma calculateNumbers_cell:
  assumes rect: "rectangular b" and ij: "i < length b" "j < length (b ! i)"
  shows "fold (applyAt (numberCell b))
            [(row, col). row \<leftarrow> [0..int (length b) - 1], col \<leftarrow> [0..int (length (b ! 0)) - 1]] b ! i ! j
         = numberCell b (int i) (int j) (b ! i ! j)"
proof -
  let ?ps = "[(row, col). row \<leftarrow> [0..int (length b) - 1], col \<leftarrow> [0..int (length (b ! 0)) - 1]]"
  let ?g = "fold (applyAt (numberCell b)) ?ps b"
  have shape: "map length ?g = map length b" by (rule fold_applyAt_shape)
  have ij': "i < length ?g" "j < length (?g ! i)"
    using map_length_eq_nth[OF shape] ij by simp_all
  have mem: "(int i, int j) \<in> set ?ps"
    unfolding allPositions_mem using ij rectangular_row_length[OF rect ij(1)]
    by (simp add: isValidPosition_def)
  have "cellAt ?g (int i) (int j) =
      map_option (\<lambda>x. if (int i, int j) \<in> set ?ps then numberCell b (int i) (int j) x else x)
        (cellAt b (int i) (int j))"
    by (rule fold_applyAt_cellAt) (rule numberCell_idem)
  then have "Some (?g ! i ! j) = Some (numberCell b (int i) (int j) (b ! i ! j))"
    unfolding cellAt_nth[OF ij] cellAt_nth[OF ij'] using mem by simp
  then show ?thesis by simp
qed

lemma rectangular_shape:
  assumes "map length b' = map length b" "rectangular b"
  shows "rectangular b'"
proof -
  have "cellwise (\<lambda>_ _. True) b b'" using assms(1) by (simp add: cellwise_explicit)
  then show ?thesis using assms(2) by (rule cellwise_rectangular)
qed

lemma countAdjacentMines_degenerate:
  assumes "b = [] \<or> b ! 0 = [] \<or> \<not> isValidPosition row col (int (length b)) (int (length (b ! 0)))"
  shows "countAdjacentMines b row col = Some 0"
  using assms by (auto simp: countAdjacentMines_def Let_def)

lemma countAdjacentMines_valid:
  assumes "rectangular b" "b \<noteq> []" "b ! 0 \<noteq> []"
    "isValidPosition row col (int (length b)) (int (length (b ! 0)))"
  shows "countAdjacentMines b row col =
     Some (int (length (filter (\<lambda>(r, c). content (the (cellAt b r c)) = Mine)
                        (getNeighbors row col (int (length b)) (int (length (b ! 0)))))))"
  using assms(2,3,4) by (simp add: countAdjacentMines_rect[OF assms(1)])

lemma countAdjacentMines_same_mines:
  assumes shape: "map length b' = map length b" and rect: "rectangular b"
    and mines: "\<And>i j. i < length b \<Longrightarrow> j < length (b ! i) \<Longrightarrow>
                  (content (b' ! i ! j) = Mine) = (content (b ! i ! j) = Mine)"
  shows "countAdjacentMines b' row col = countAdjacentMines b row col"
proof -
  have rect': "rectangular b'" using shape rect by (rule rectangular_shape)
  have len: "length b' = length b" using shape by (rule map_length_eq_nth(1))
  have len0: "length (b' ! 0) = length (b ! 0)" if "b \<noteq> []"
    using map_length_eq_nth(2)[OF shape, of 0] that by simp
  show ?thesis
  proof (cases "b = [] \<or> b ! 0 = [] \<or> \<not> isValidPosition row col (int (length b)) (int (length (b ! 0)))")
    case True
    have "b' = [] \<or> b' ! 0 = [] \<or> \<not> isValidPosition row col (int (length b')) (int (length (b' ! 0)))"
    proof (cases "b = []")
      case True
      with len show ?thesis by simp
    next
      case False
      with True len len0 show ?thesis by auto
    qed
    then have "countAdjacentMines b' row col = Some 0" by (rule countAdjacentMines_degenerate)
    moreover from True have "countAdjacentMines b row col = Some 0" by (rule countAdjacentMines_degenerate)
    ultimately show ?thesis by simp
  next
    case False
    then have ne: "b \<noteq> []" "b ! 0 \<noteq> []"
      and valid: "isValidPosition row col (int (length b)) (int (length (b ! 0)))" by simp_all
    have ne': "b' \<noteq> []" "b' ! 0 \<noteq> []" using ne len len0[OF ne(1)] by auto
    have valid': "isValidPosition row col (int (length b')) (int (length (b' ! 0)))"
      using valid len len0[OF ne(1)] by simp
    have "filter (\<lambda>(r, c). content (the (cellAt b' r c)) = Mine)
             (getNeighbors row col (int (length b)) (int (length (b ! 0))))
        = filter (\<lambda>(r, c). content (the (cellAt b r c)) = Mine)
             (getNeighbors row col (int (length b)) (int (length (b ! 0))))"
    proof (rule filter_cong[OF refl])
      fix p assume p: "p \<in> set (getNeighbors row col (int (length b)) (int (length (b ! 0))))"
      obtain r c where rc: "p = (r, c)" by (cases p)
      with p have v: "isValidPosition r c (int (length b)) (int (length (b ! 0)))"
        by (simp add: getNeighbors_valid)
      then have v': "isValidPosition r c (int (length b')) (int (length (b' ! 0)))"
        using len len0[OF ne(1)] by simp
      from v have inb: "nat r < length b" "nat c < length (b ! 0)"
        by (auto simp: isValidPosition_def)
      then have inb2: "nat c < length (b ! nat r)"
        using rectangular_row_length[OF rect inb(1)] by simp
      show "(case p of (r, c) \<Rightarrow> content (the (cellAt b' r c)) = Mine)
          = (case p of (r, c) \<Rightarrow> content (the (cellAt b r c)) = Mine)"
        unfolding rc using rectangular_cellAt[OF rect v] rectangular_cellAt[OF rect' v']
          mines[OF inb(1) inb2] by simp
    qed
    then show ?thesis
      unfolding countAdjacentMines_valid[OF rect ne valid] countAdjacentMines_valid[OF rect' ne' valid']
      using len len0[OF ne(1)] by simp
  qed
qed

lemma calculateNumbers_result:
  assumes rect: "rectangular (boards s board)" and ref: "board \<noteq> nextRef s"
  shows "\<exists>g. calculateNumbers s board = Some (pushBoard s g, nextRef s)
     \<and> map length g = map length (boards s board)
     \<and> (\<forall>i < length (boards s board). \<forall>j < length (boards s board ! i).
           g ! i ! j = numberCell (boards s board) (int i) (int j) (boards s board ! i ! j))"
proof -
  let ?b = "boards s board"
  show ?thesis
  proof (cases "?b = []")
    case True
    then have "calculateNumbers s board = Some (pushBoard s [], nextRef s)"
      by (simp add: calculateNumbers_def alloc_def pushBoard_def)
    with True show ?thesis by simp
  next
    case ne: False
    show ?thesis
    proof (cases "?b ! 0 = []")
      case True
      have rows: "length (?b ! i) = 0" if "i < length ?b" for i
        using rectangular_row_length[OF rect that] True by simp
      have res: "calculateNumbers s board = Some (pushBoard s (map (\<lambda>_. []) ?b), nextRef s)"
        using ne True by (simp add: calculateNumbers_def alloc_def pushBoard_def)
      have shape: "map length (map (\<lambda>_. [] :: CellState list) ?b) = map length ?b"
        by (rule nth_equalityI) (simp_all add: rows)
      show ?thesis
      proof (intro exI conjI allI impI)
        show "calculateNumbers s board = Some (pushBoard s (map (\<lambda>_. []) ?b), nextRef s)" by (rule res)
        show "map length (map (\<lambda>_. [] :: CellState list) ?b) = map length ?b" by (rule shape)
        fix i j assume "i < length ?b" "j < length (?b ! i)"
        with rows[of i] show "map (\<lambda>_. []) ?b ! i ! j = numberCell ?b (int i) (int j) (?b ! i ! j)" by simp
      qed
    next
      case ne0: False
      let ?ps = "[(row, col). row \<leftarrow> [0..int (length ?b) - 1], col \<leftarrow> [0..int (length (?b ! 0)) - 1]]"
      define g where "g = fold (applyAt (numberCell ?b)) ?ps ?b"
      have "calculateNumbers s board = Some (setBoard (pushBoard s ?b) (nextRef s) g, nextRef s)"
        unfolding g_def using rect ref ne ne0 by (rule calculateNumbers_grid)
      moreover have "setBoard (pushBoard s ?b) (nextRef s) g = pushBoard s g"
        by (simp add: setBoard_def pushBoard_def)
      ultimately have res: "calculateNumbers s board = Some (pushBoard s g, nextRef s)" by simp
      have shape: "map length g = map length ?b" unfolding g_def by (rule fold_applyAt_shape)
      have cellv: "g ! i ! j = numberCell ?b (int i) (int j) (?b ! i ! j)"
        if "i < length ?b" "j < length (?b ! i)" for i j
        unfolding g_def using rect that by (rule calculateNumbers_cell)
      from res shape cellv show ?thesis by blast
    qed
  qed
qed

text \<open>
  Claim C8. On a rectangular board held at an allocated reference, \<open>calculateNumbers\<close>
  returns a new board of the same shape (also when there are no rows or the rows are
  empty); every mine cell is still a mine and every other cell holds
  \<open>countAdjacentMines\<close> of its position, which is the same number on the input and on the
  result. Every board that was in the store, the input among them, is left as it was.
\<close>

theorem calculateNumbers_correct:
  assumes "rectangular (boards s board)" and "board < nextRef s"
  shows "\<exists>s' board'. calculateNumbers s board = Some (s', board')
     \<and> board' = nextRef s
     \<and> (\<forall>r < nextRef s. boards s' r = boards s r)
     \<and> map length (boards s' board') = map length (boards s board)
     \<and> (\<forall>i < length (boards s board). \<forall>j < length (boards s board ! i).
          (content (boards s board ! i ! j) = Mine \<longrightarrow> content (boards s' board' ! i ! j) = Mine)
        \<and> (content (boards s board ! i ! j) \<noteq> Mine \<longrightarrow>
             (\<exists>n. countAdjacentMines (boards s board) (int i) (int j) = Some n
                \<and> countAdjacentMines (boards s' board') (int i) (int j) = Some n
                \<and> content (boards s' board' ! i ! j) = Count n)))"
proof -
  let ?b = "boards s board"
  have ref: "board \<noteq> nextRef s" using assms(2) by simp
  from calculateNumbers_result[OF assms(1) ref] obtain g where
    res: "calculateNumbers s board = Some (pushBoard s g, nextRef s)"
    and shape: "map length g = map length ?b"
    and cellv: "\<And>i j. i < length ?b \<Longrightarrow> j < length (?b ! i) \<Longrightarrow>
                  g ! i ! j = numberCell ?b (int i) (int j) (?b ! i ! j)"
    by blast
  have g: "boards (pushBoard s g) (nextRef s) = g" by simp
  have mines: "(content (g ! i ! j) = Mine) = (content (?b ! i ! j) = Mine)"
    if "i < length ?b" "j < length (?b ! i)" for i j
    unfolding cellv[OF that] by (simp add: numberCell_def)
  have same: "countAdjacentMines g row col = countAdjacentMines ?b row col" for row col
    using shape assms(1) mines by (rule countAdjacentMines_same_mines)
  have cells: "(content (?b ! i ! j) = Mine \<longrightarrow> content (g ! i ! j) = Mine)
    \<and> (content (?b ! i ! j) \<noteq> Mine \<longrightarrow>
         (\<exists>n. countAdjacentMines ?b (int i) (int j) = Some n
            \<and> countAdjacentMines g (int i) (int j) = Some n
            \<and> content (g ! i ! j) = Count n))"
    if "i < length ?b" "j < length (?b ! i)" for i j
  proof -
    obtain n where n: "countAdjacentMines ?b (int i) (int j) = Some n"
      using countAdjacentMines_rect[OF assms(1)] by blast
    show ?thesis
      unfolding cellv[OF that] same using n by (simp add: numberCell_def)
  qed
  show ?thesis
  proof (intro exI conjI)
    show "calculateNumbers s board = Some (pushBoard s g, nextRef s)" by (rule res)
    show "nextRef s = nextRef s" ..
    show "\<forall>r < nextRef s. boards (pushBoard s g) r = boards s r" by simp
    show "map length (boards (pushBoard s g) (nextRef s)) = map length ?b" unfolding g by (rule shape)
    show "\<forall>i < length ?b. \<forall>j < length (?b ! i).
      (content (?b ! i ! j) = Mine \<longrightarrow> content (boards (pushBoard s g) (nextRef s) ! i ! j) = Mine)
    \<and> (content (?b ! i ! j) \<noteq> Mine \<longrightarrow>
         (\<exists>n. countAdjacentMines ?b (int i) (int j) = Some n
            \<and> countAdjacentMines (boards (pushBoard s g) (nextRef s)) (int i) (int j) = Some n
            \<and> content (boards (pushBoard s g) (nextRef s) ! i ! j) = Count n))"
      unfolding g using cells by blast
  qed
qed

theorem calculateNumbers_correct_witness:
  "\<exists>s' board'. calculateNumbers (storeOf board22) 0 = Some (s', board')
     \<and> boards s' 0 = board22
     \<and> map length (boards s' board') = [2, 2]
     \<and> content (boards s' board' ! 0 ! 0) = Mine
     \<and> content (boards s' board' ! 1 ! 1) = Count 1"
proof -
  have b: "boards (storeOf board22) 0 = board22" "nextRef (storeOf board22) = 1"
    by (simp_all add: storeOf_def)
  have rect: "rectangular (boards (storeOf board22) 0)" unfolding b by code_simp
  have ref: "0 < nextRef (storeOf board22)" unfolding b by simp
  have facts: "map length board22 = [2, 2]" "(0::nat) < length board22" "(1::nat) < length board22"
    "(0::nat) < length (board22 ! 0)" "(1::nat) < length (board22 ! 1)"
    "content (board22 ! 0 ! 0) = Mine" "content (board22 ! 1 ! 1) \<noteq> Mine"
    by (simp_all add: board22_def mkCell_def)
  have n: "countAdjacentMines board22 (int 1) (int 1) = Some 1" by code_simp
  from calculateNumbers_correct[OF rect ref] obtain s' board' where
    r: "calculateNumbers (storeOf board22) 0 = Some (s', board')"
    and old: "\<forall>r < 1. boards s' r = boards (storeOf board22) r"
    and shape: "map length (boards s' board') = map length board22"
    and cells: "\<forall>i < length board22. \<forall>j < length (board22 ! i).
          (content (board22 ! i ! j) = Mine \<longrightarrow> content (boards s' board' ! i ! j) = Mine)
        \<and> (content (board22 ! i ! j) \<noteq> Mine \<longrightarrow>
             (\<exists>n. countAdjacentMines board22 (int i) (int j) = Some n
                \<and> countAdjacentMines (boards s' board') (int i) (int j) = Some n
                \<and> content (boards s' board' ! i ! j) = Count n))"
    unfolding b by blast
  from cells facts have "content (boards s' board' ! 0 ! 0) = Mine" by blast
  moreover from cells facts(3,5,7) obtain m where
    "countAdjacentMines board22 (int 1) (int 1) = Some m" "content (boards s' board' ! 1 ! 1) = Count m"
    by blast
  with n have "content (boards s' board' ! 1 ! 1) = Count 1" by simp
  moreover from old b have "boards s' 0 = board22" by simp
  ultimately show ?thesis using r shape facts(1) by auto
qed

section \<open>generateMinePositions\<close>

lemma draw_index_le: "nat \<lfloor>realOf r * real (Suc i)\<rfloor> \<le> i"
proof -
  have r: "0 \<le> realOf r" "realOf r < 1" using realOf[of r] by simp_all
  have "realOf r * real (Suc i) < real (Suc i)"
    using r by (simp add: mult_less_cancel_right2 del: of_nat_Suc)
  then have "\<lfloor>realOf r * real (Suc i)\<rfloor> < int (Suc i)"
    by (simp add: floor_less_iff del: of_nat_Suc)
  then show ?thesis by simp
qed

lemma mset_shuffleLoop:
  "i < length xs \<or> i = 0 \<Longrightarrow> mset (shuffleLoop rnd k i xs) = mset xs"
proof (induction i arbitrary: k xs)
  case 0
  show ?case by simp
next
  case (Suc i)
  then have i: "Suc i < length xs" by simp
  let ?j = "nat \<lfloor>realOf (rnd k) * real (Suc i + 1)\<rfloor>"
  have j: "?j \<le> Suc i" using draw_index_le[of "rnd k" "Suc i"] by simp
  then have jl: "?j < length xs" using i by simp
  let ?ys = "xs[Suc i := xs ! ?j, ?j := xs ! Suc i]"
  have "mset ?ys = mset xs" using jl i by (rule mset_swap)
  moreover have "mset (shuffleLoop rnd (Suc k) i ?ys) = mset ?ys"
    by (rule Suc.IH) (use i in simp)
  ultimately show ?case by (simp add: Let_def)
qed

lemma fold_insert_set: "set (fold List.insert xs ys) = set xs \<union> set ys"
  by (induction xs arbitrary: ys) auto

lemma fold_insert_distinct: "distinct ys \<Longrightarrow> distinct (fold List.insert xs ys)"
  by (induction xs arbitrary: ys) auto

lemma excludedSetOf_distinct: "distinct (excludedSetOf rows cols e)"
  by (auto simp: excludedSetOf_def fold_insert_distinct split: option.splits)

lemma excludedSetOf_set:
  "set (excludedSetOf rows cols e) =
     (case e of None \<Rightarrow> {} | Some (er, ec) \<Rightarrow> insert (er, ec) (set (getNeighbors er ec rows cols)))"
  by (auto simp: excludedSetOf_def fold_insert_set split: option.splits)

lemma comprehension_filter_product:
  "[(row, col). row \<leftarrow> xs, col \<leftarrow> ys, P (row, col)] = filter P (List.product xs ys)"
proof (induction xs)
  case Nil
  show ?case by simp
next
  case (Cons x xs)
  have "concat (map (\<lambda>col. if P (x, col) then [(x, col)] else []) ys) = filter P (map (Pair x) ys)"
    by (induction ys) simp_all
  with Cons show ?case by simp
qed

lemma valid_positions_set:
  "set (List.product [0..rows - 1] [0..cols - 1]) = {(r, c). isValidPosition r c rows cols}"
  by (auto simp: isValidPosition_def)

lemma valid_positions_card:
  assumes "0 \<le> rows" "0 \<le> cols"
  shows "int (card {(r, c). isValidPosition r c rows cols}) = rows * cols"
proof -
  have "{(r, c). isValidPosition r c rows cols} = {0..rows - 1} \<times> {0..cols - 1}"
    by (auto simp: isValidPosition_def)
  then have "card {(r, c). isValidPosition r c rows cols} = card {0..rows - 1} * card {0..cols - 1}"
    by (simp add: card_cartesian_product)
  then show ?thesis using assms by simp
qed

lemma exclusionSet_finite: "finite (exclusionSet rows cols e)"
  by (auto simp: exclusionSet_def split: option.splits)

lemma exclusionSet_card: "card (exclusionSet rows cols e) = length (excludedSetOf rows cols e)"
proof -
  have "set (excludedSetOf rows cols e) = exclusionSet rows cols e"
    by (simp add: excludedSetOf_set exclusionSet_def)
  then show ?thesis
    using distinct_card[OF excludedSetOf_distinct[of rows cols e]] by simp
qed

lemma exclusionSet_outside:
  "card (exclusionSet rows cols e - {(r, c). isValidPosition r c rows cols}) \<le> 1"
proof (cases e)
  case None
  then show ?thesis by (simp add: exclusionSet_def)
next
  case (Some p)
  obtain er ec where p: "p = (er, ec)" by (cases p)
  have "exclusionSet rows cols e - {(r, c). isValidPosition r c rows cols} \<subseteq> {(er, ec)}"
    unfolding Some p exclusionSet_def by (auto dest: getNeighbors_valid)
  then have "card (exclusionSet rows cols e - {(r, c). isValidPosition r c rows cols}) \<le> card {(er, ec)}"
    by (intro card_mono) simp_all
  then show ?thesis by simp
qed

lemma generateMinePositions_unfold:
  "generateMinePositions rnd rows cols mineCount e =
     slice0 (shuffleLoop rnd 0
               (length (filter (\<lambda>p. p \<notin> exclusionSet rows cols e) (List.product [0..rows - 1] [0..cols - 1])) - 1)
               (filter (\<lambda>p. p \<notin> exclusionSet rows cols e) (List.product [0..rows - 1] [0..cols - 1])))
            (min mineCount (rows * cols - int (card (exclusionSet rows cols e))))"
proof -
  have s: "set (excludedSetOf rows cols e) = exclusionSet rows cols e"
    by (simp add: excludedSetOf_set exclusionSet_def)
  have "[(row, col). row \<leftarrow> [0..rows - 1], col \<leftarrow> [0..cols - 1], (row, col) \<notin> set (excludedSetOf rows cols e)]
      = filter (\<lambda>p. p \<notin> exclusionSet rows cols e) (List.product [0..rows - 1] [0..cols - 1])"
    unfolding s by (rule comprehension_filter_product[of "\<lambda>p. p \<notin> exclusionSet rows cols e"])
  then show ?thesis
    by (simp add: generateMinePositions_def Let_def exclusionSet_card)
qed

lemma slice0_length:
  "int (length (slice0 xs e)) = (if e < 0 then max (int (length xs) + e) 0 else min e (int (length xs)))"
  by (auto simp: slice0_def Let_def)

lemma slice0_take: "\<exists>k. slice0 xs e = take k xs"
  by (auto simp: slice0_def Let_def)

lemma generateMinePositions_properties:
  assumes "0 \<le> rows" "0 \<le> cols" "0 \<le> mineCount"
  shows "int (length (generateMinePositions rnd rows cols mineCount e))
           = max 0 (min mineCount (rows * cols - int (card (exclusionSet rows cols e))))"
    and "distinct (generateMinePositions rnd rows cols mineCount e)"
    and "set (generateMinePositions rnd rows cols mineCount e)
           \<subseteq> {(r, c). isValidPosition r c rows cols} - exclusionSet rows cols e"
proof -
  let ?E = "exclusionSet rows cols e"
  let ?V = "{(r, c). isValidPosition r c rows cols}"
  let ?all = "filter (\<lambda>p. p \<notin> ?E) (List.product [0..rows - 1] [0..cols - 1])"
  let ?sh = "shuffleLoop rnd 0 (length ?all - 1) ?all"
  let ?act = "min mineCount (rows * cols - int (card ?E))"
  have res: "generateMinePositions rnd rows cols mineCount e = slice0 ?sh ?act"
    by (rule generateMinePositions_unfold)
  have dall: "distinct ?all" by (simp add: distinct_product)
  have sall: "set ?all = ?V - ?E"
    unfolding set_filter valid_positions_set by auto
  have finV: "finite ?V"
    using valid_positions_set[of rows cols, symmetric] by (metis List.finite_set)
  have cardV: "int (card ?V) = rows * cols" using assms(1,2) by (rule valid_positions_card)
  have lall: "length ?all = card (?V - ?E)"
    using distinct_card[OF dall] sall by simp
  have msh: "mset ?sh = mset ?all"
    by (rule mset_shuffleLoop) (cases ?all; simp)
  have dsh: "distinct ?sh" using msh dall by (metis mset_eq_imp_distinct_iff)
  have ssh: "set ?sh = ?V - ?E" using msh sall by (metis mset_eq_setD)
  have lsh: "length ?sh = card (?V - ?E)" using msh lall by (metis mset_eq_length)
  obtain k where k: "slice0 ?sh ?act = take k ?sh" using slice0_take by blast
  show "distinct (generateMinePositions rnd rows cols mineCount e)"
    unfolding res k using dsh by simp
  show "set (generateMinePositions rnd rows cols mineCount e) \<subseteq> ?V - ?E"
    unfolding res k using ssh set_take_subset[of k ?sh] by simp
  have split: "card ?E = card (?E \<inter> ?V) + card (?E - ?V)"
    using card_Int_Diff[OF exclusionSet_finite, of rows cols e ?V] .
  have out: "card (?E - ?V) \<le> 1" by (rule exclusionSet_outside)
  have diff: "card (?V - ?E) + card (?E \<inter> ?V) = card ?V"
    using card_Int_Diff[OF finV, of ?E] by (simp add: Int_commute)
  have "int (length (slice0 ?sh ?act)) = max 0 ?act"
    unfolding slice0_length lsh
    using split out diff cardV assms(3) by auto
  then show "int (length (generateMinePositions rnd rows cols mineCount e)) = max 0 ?act"
    unfolding res .
qed

text \<open>
  Claim C4, amended. For \<open>rows\<close>, \<open>cols\<close> and \<open>mineCount\<close> that are not negative and any
  \<open>excludePosition\<close>, present or not, \<open>generateMinePositions\<close> returns pairwise distinct
  positions inside the board, none of them in the exclusion set, and their number is
  \<open>min mineCount (rows * cols - |exclusionSet|)\<close>, or \<open>0\<close> when that is negative. It never
  fails: the result is a list for every random source.
\<close>

theorem generateMinePositions_correct:
  assumes "0 \<le> rows" "0 \<le> cols" "0 \<le> mineCount"
  shows "int (length (generateMinePositions rnd rows cols mineCount excludePosition))
           = max 0 (min mineCount (rows * cols - int (card (exclusionSet rows cols excludePosition))))
       \<and> distinct (generateMinePositions rnd rows cols mineCount excludePosition)
       \<and> (\<forall>(r, c) \<in> set (generateMinePositions rnd rows cols mineCount excludePosition).
             isValidPosition r c rows cols \<and> (r, c) \<notin> exclusionSet rows cols excludePosition)"
  using generateMinePositions_properties[OF assms, of rnd excludePosition] by auto

theorem generateMinePositions_correct_witness:
  "generateMinePositions halfSource 3 3 10 (Some (1, 1)) = []
   \<and> length (generateMinePositions halfSource 2 2 3 None) = 3
   \<and> distinct (generateMinePositions halfSource 2 2 3 None)"
proof -
  have c1: "card (exclusionSet 3 3 (Some (1, 1))) = 9"
    unfolding exclusionSet_card by code_simp
  have c2: "card (exclusionSet 2 2 None) = 0"
    unfolding exclusionSet_card by code_simp
  have h: "(0::int) \<le> 3" "(0::int) \<le> 10" "(0::int) \<le> 2" by simp_all
  from generateMinePositions_correct[OF h(1) h(1) h(2), of halfSource "Some (1, 1)"] c1
  have "generateMinePositions halfSource 3 3 10 (Some (1, 1)) = []" by simp
  moreover from generateMinePositions_correct[OF h(3) h(3) h(1), of halfSource None] c2
  have "length (generateMinePositions halfSource 2 2 3 None) = 3
      \<and> distinct (generateMinePositions halfSource 2 2 3 None)" by simp
  ultimately show ?thesis by simp
qed

text \<open>
  Claim C4 as stated fails when \<open>excludePosition\<close> lies outside the board and all cells
  are its neighbours: on a 1 by 1 board with \<open>excludePosition = (1, 1)\<close> the exclusion set
  has two elements, the formula of the claim gives \<open>-1\<close>, and the program returns the
  empty sequence.
\<close>

theorem generateMinePositions_count_counterexample:
  "int (length (generateMinePositions zeroSource 1 1 1 (Some (1, 1))))
     \<noteq> min 1 (1 * 1 - int (card (exclusionSet 1 1 (Some (1, 1)))))"
proof -
  have "card (exclusionSet 1 1 (Some (1, 1))) = 2"
    unfolding exclusionSet_card by code_simp
  moreover have "generateMinePositions zeroSource 1 1 1 (Some (1, 1)) = []"
    by code_simp
  ultimately show ?thesis by simp
qed

section \<open>createBoard\<close>

lemma placeMines_result:
  assumes "\<And>r c. (r, c) \<in> set ps \<Longrightarrow> cellAt (boards s board) r c \<noteq> None"
  shows "placeMines s board ps =
     Some (pushBoard s (fold (applyAt mineCell) ps (boards s board)), nextRef s)"
proof -
  let ?s1 = "pushBoard s (boards s board)"
  have al: "alloc s (boards s board) = (?s1, nextRef s)" by (simp add: alloc_def pushBoard_def)
  have m: "mineCell = (\<lambda>_ _ cell. cell\<lparr>content := Mine\<rparr>)" by (intro ext) (simp add: mineCell_def)
  have "placeMinesLoop ?s1 (nextRef s) ps =
     Some (setBoard ?s1 (nextRef s) (fold (applyAt mineCell) ps (boards ?s1 (nextRef s))))"
    unfolding m by (rule placeMinesLoop_result) (use assms in simp)
  moreover have "setBoard ?s1 (nextRef s) g = pushBoard s g" for g
    by (simp add: setBoard_def pushBoard_def)
  ultimately show ?thesis
    by (simp add: placeMines_def al)
qed

lemma countMines_card:
  "countMines b = card {(i, j). i < length b \<and> j < length (b ! i) \<and> content (b ! i ! j) = Mine}"
proof -
  let ?B = "\<lambda>i. {j. j < length (b ! i) \<and> content (b ! i ! j) = Mine}"
  have set: "{(i, j). i < length b \<and> j < length (b ! i) \<and> content (b ! i ! j) = Mine}
      = (SIGMA i:{0..<length b}. ?B i)" by auto
  have "countMines b = sum_list (map (\<lambda>row. length (filter (\<lambda>cell. content cell = Mine) row)) b)"
    by (simp add: countMines_def)
  also have "\<dots> = (\<Sum>i = 0..<length b. length (filter (\<lambda>cell. content cell = Mine) (b ! i)))"
    using sum_list_sum_nth[of "map (\<lambda>row. length (filter (\<lambda>cell. content cell = Mine) row)) b"]
    by simp
  also have "\<dots> = (\<Sum>i = 0..<length b. card (?B i))"
    by (simp add: length_filter_conv_card)
  also have "\<dots> = card (SIGMA i:{0..<length b}. ?B i)"
    by (subst card_SigmaI) simp_all
  finally show ?thesis unfolding set .
qed

lemma emptyBoard_cellAt:
  assumes "isValidPosition r c rows cols"
  shows "cellAt (replicate (nat rows) (replicate (nat cols) createEmptyCell)) r c = Some createEmptyCell"
  using assms by (auto simp: cellAt_def isValidPosition_def)

lemma emptyBoard_rectangular: "rectangular (replicate n (replicate m x))"
  by (cases n) (auto simp: rectangular_def list_all_iff)

lemma mineCell_idem: "mineCell r c (mineCell r c x) = mineCell r c x"
  by (simp add: mineCell_def)

lemma replicate_shape: "map length (replicate n (replicate m x)) = replicate n m"
  by simp

lemma createBoardWithMines_result:
  assumes valid: "\<And>r c. (r, c) \<in> set ps \<Longrightarrow> isValidPosition r c rows cols"
  shows "\<exists>s' g. createBoardWithMines s rows cols ps = Some (s', nextRef s + 2)
      \<and> boards s' (nextRef s + 2) = g
      \<and> map length g = replicate (nat rows) (nat cols)
      \<and> (\<forall>i < nat rows. \<forall>j < nat cols. (content (g ! i ! j) = Mine) = ((int i, int j) \<in> set ps))"
proof -
  define b0 where "b0 = replicate (nat rows) (replicate (nat cols) createEmptyCell)"
  define s1 where "s1 = pushBoard s b0"
  define g1 where "g1 = fold (applyAt mineCell) ps b0"
  define s2 where "s2 = pushBoard s1 g1"
  have shape0: "map length b0 = replicate (nat rows) (nat cols)" by (simp add: b0_def)
  have len0: "length b0 = nat rows" "\<And>i. i < nat rows \<Longrightarrow> length (b0 ! i) = nat cols"
    by (simp_all add: b0_def)
  have cb: "createEmptyBoard s rows cols = (s1, nextRef s)"
    by (simp add: createEmptyBoard_def alloc_def s1_def pushBoard_def b0_def)
  have b1: "boards s1 (nextRef s) = b0" "nextRef s1 = Suc (nextRef s)" by (simp_all add: s1_def)
  have pm: "placeMines s1 (nextRef s) ps = Some (s2, Suc (nextRef s))"
  proof -
    have "placeMines s1 (nextRef s) ps =
        Some (pushBoard s1 (fold (applyAt mineCell) ps (boards s1 (nextRef s))), nextRef s1)"
    proof (rule placeMines_result)
      fix r c assume "(r, c) \<in> set ps"
      then have "isValidPosition r c rows cols" by (rule valid)
      then show "cellAt (boards s1 (nextRef s)) r c \<noteq> None"
        unfolding b1 b0_def by (simp add: emptyBoard_cellAt)
    qed
    then show ?thesis unfolding b1 s2_def g1_def .
  qed
  have b2: "boards s2 (Suc (nextRef s)) = g1" "nextRef s2 = nextRef s + 2"
    by (simp_all add: s2_def b1)
  have shape1: "map length g1 = map length b0" unfolding g1_def by (rule fold_applyAt_shape)
  have rect1: "rectangular g1"
    using shape1 unfolding b0_def by (rule rectangular_shape) (rule emptyBoard_rectangular)
  have len1: "length g1 = nat rows" "\<And>i. i < nat rows \<Longrightarrow> length (g1 ! i) = nat cols"
    using map_length_eq_nth[OF shape1] len0 by simp_all
  have cell1: "(content (g1 ! i ! j) = Mine) = ((int i, int j) \<in> set ps)"
    if ij: "i < nat rows" "j < nat cols" for i j
  proof -
    have i0: "i < length b0" "j < length (b0 ! i)" using ij len0 by simp_all
    have i1: "i < length g1" "j < length (g1 ! i)" using ij len1 by simp_all
    have "cellAt g1 (int i) (int j) =
      map_option (\<lambda>x. if (int i, int j) \<in> set ps then mineCell (int i) (int j) x else x)
        (cellAt b0 (int i) (int j))"
      unfolding g1_def by (rule fold_applyAt_cellAt) (rule mineCell_idem)
    then have "g1 ! i ! j = (if (int i, int j) \<in> set ps then mineCell (int i) (int j) (b0 ! i ! j) else b0 ! i ! j)"
      unfolding cellAt_nth[OF i0] cellAt_nth[OF i1] by simp
    moreover have "b0 ! i ! j = createEmptyCell" using ij by (simp add: b0_def)
    ultimately show ?thesis by (simp add: mineCell_def createEmptyCell_def)
  qed
  have ref: "Suc (nextRef s) \<noteq> nextRef s2" by (simp add: b2)
  from calculateNumbers_result[of s2 "Suc (nextRef s)"] rect1 ref obtain g where
    cn: "calculateNumbers s2 (Suc (nextRef s)) = Some (pushBoard s2 g, nextRef s2)"
    and shape2: "map length g = map length g1"
    and cell2: "\<And>i j. i < length g1 \<Longrightarrow> j < length (g1 ! i) \<Longrightarrow>
         g ! i ! j = numberCell g1 (int i) (int j) (g1 ! i ! j)"
    unfolding b2 by blast
  have res: "createBoardWithMines s rows cols ps = Some (pushBoard s2 g, nextRef s + 2)"
    using cn by (simp add: createBoardWithMines_def cb pm b2)
  have cells: "(content (g ! i ! j) = Mine) = ((int i, int j) \<in> set ps)"
    if ij: "i < nat rows" "j < nat cols" for i j
  proof -
    have "g ! i ! j = numberCell g1 (int i) (int j) (g1 ! i ! j)"
      using ij len1 by (intro cell2) simp_all
    then have "(content (g ! i ! j) = Mine) = (content (g1 ! i ! j) = Mine)"
      by (simp add: numberCell_def)
    with cell1[OF ij] show ?thesis by simp
  qed
  show ?thesis
  proof (intro exI conjI)
    show "createBoardWithMines s rows cols ps = Some (pushBoard s2 g, nextRef s + 2)" by (rule res)
    show "boards (pushBoard s2 g) (nextRef s + 2) = g" by (simp add: b2)
    show "map length g = replicate (nat rows) (nat cols)" using shape2 shape1 shape0 by simp
    show "\<forall>i < nat rows. \<forall>j < nat cols. (content (g ! i ! j) = Mine) = ((int i, int j) \<in> set ps)"
      using cells by blast
  qed
qed

lemma createBoard_eq:
  "createBoard rnd s config e =
     createBoardWithMines s (cfgRows config) (cfgCols config)
       (generateMinePositions rnd (cfgRows config) (cfgCols config) (cfgMineCount config) e)"
  by (simp add: createBoard_def createBoardWithMines_def Let_def split: prod.splits)

lemma countMines_positions:
  assumes shape: "map length g = replicate (nat rows) (nat cols)"
    and mines: "\<forall>i < nat rows. \<forall>j < nat cols. (content (g ! i ! j) = Mine) = ((int i, int j) \<in> set ps)"
    and dist: "distinct ps"
    and valid: "\<And>r c. (r, c) \<in> set ps \<Longrightarrow> isValidPosition r c rows cols"
  shows "countMines g = length ps"
proof -
  have len: "length g = nat rows" using shape by (metis length_map length_replicate)
  have rowlen: "length (g ! i) = nat cols" if "i < nat rows" for i
  proof -
    have "map length g ! i = replicate (nat rows) (nat cols) ! i" using shape by simp
    then show ?thesis using that len by simp
  qed
  have "{(i, j). i < length g \<and> j < length (g ! i) \<and> content (g ! i ! j) = Mine}
      = (\<lambda>(r, c). (nat r, nat c)) ` set ps"
  proof (intro set_eqI iffI)
    fix x assume x: "x \<in> {(i, j). i < length g \<and> j < length (g ! i) \<and> content (g ! i ! j) = Mine}"
    obtain i j where ij: "x = (i, j)" by (cases x)
    with x have a: "i < nat rows" "j < nat cols" "content (g ! i ! j) = Mine"
      using len rowlen by auto
    with mines have "(int i, int j) \<in> set ps" by blast
    then have "(\<lambda>(r, c). (nat r, nat c)) (int i, int j) \<in> (\<lambda>(r, c). (nat r, nat c)) ` set ps"
      by (rule imageI)
    then show "x \<in> (\<lambda>(r, c). (nat r, nat c)) ` set ps" by (simp add: ij)
  next
    fix x assume "x \<in> (\<lambda>(r, c). (nat r, nat c)) ` set ps"
    then obtain r c where rc: "(r, c) \<in> set ps" "x = (nat r, nat c)" by auto
    from valid[OF rc(1)] have v: "0 \<le> r" "r < rows" "0 \<le> c" "c < cols"
      by (simp_all add: isValidPosition_def)
    then have a: "nat r < nat rows" "nat c < nat cols" by simp_all
    from rc(1) v have "(int (nat r), int (nat c)) \<in> set ps" by simp
    with mines a have "content (g ! nat r ! nat c) = Mine" by blast
    with a len rowlen[OF a(1)] show "x \<in> {(i, j). i < length g \<and> j < length (g ! i) \<and> content (g ! i ! j) = Mine}"
      by (simp add: rc(2))
  qed
  moreover have "inj_on (\<lambda>(r, c). (nat r, nat c)) (set ps)"
  proof (rule inj_onI)
    fix x y assume xy: "x \<in> set ps" "y \<in> set ps"
      and eq: "(\<lambda>(r, c). (nat r, nat c)) x = (\<lambda>(r, c). (nat r, nat c)) y"
    obtain r c where x: "x = (r, c)" by (cases x)
    obtain r' c' where y: "y = (r', c')" by (cases y)
    from valid xy x y have "0 \<le> r" "0 \<le> c" "0 \<le> r'" "0 \<le> c'"
      by (auto simp: isValidPosition_def)
    with eq x y show "x = y" by (auto simp: nat_eq_iff)
  qed
  ultimately have "countMines g = card (set ps)"
    unfolding countMines_card by (simp add: card_image)
  then show ?thesis using dist by (simp add: distinct_card)
qed

lemma exclusionSet_valid:
  assumes "isValidPosition erow ecol rows cols" "(r, c) \<in> exclusionSet rows cols (Some (erow, ecol))"
  shows "isValidPosition r c rows cols"
  using assms by (auto simp: exclusionSet_def dest: getNeighbors_valid)

lemma exclusionSet_fits:
  assumes "0 \<le> rows" "0 \<le> cols" "isValidPosition erow ecol rows cols"
  shows "int (card (exclusionSet rows cols (Some (erow, ecol)))) \<le> rows * cols"
proof -
  have fin: "finite {(r, c). isValidPosition r c rows cols}"
    using valid_positions_set[of rows cols, symmetric] by (metis List.finite_set)
  have "exclusionSet rows cols (Some (erow, ecol)) \<subseteq> {(r, c). isValidPosition r c rows cols}"
    using exclusionSet_valid[OF assms(3)] by auto
  then have "card (exclusionSet rows cols (Some (erow, ecol))) \<le> card {(r, c). isValidPosition r c rows cols}"
    using fin by (rule card_mono[rotated])
  then show ?thesis using valid_positions_card[OF assms(1,2)] by simp
qed

lemma getNeighbors_set:
  "set (getNeighbors r c rows cols) =
     {q. adjacent (r, c) q \<and> isValidPosition (fst q) (snd q) rows cols}"
proof (intro set_eqI iffI)
  fix q assume "q \<in> set (getNeighbors r c rows cols)"
  then show "q \<in> {q. adjacent (r, c) q \<and> isValidPosition (fst q) (snd q) rows cols}"
    by (auto simp: getNeighbors_def directions_def adjacent_def)
next
  fix q assume q: "q \<in> {q. adjacent (r, c) q \<and> isValidPosition (fst q) (snd q) rows cols}"
  obtain r' c' where rc: "q = (r', c')" by (cases q)
  from q rc have v: "isValidPosition r' c' rows cols" by simp
  from q rc have "r' - r \<in> {-1, 0, 1}" "c' - c \<in> {-1, 0, 1}" "\<not> (r' - r = 0 \<and> c' - c = 0)"
    by (auto simp: adjacent_def)
  then have "(r' - r, c' - c) \<in> set directions"
    by (auto simp: directions_def)
  then have "(r + (r' - r), c + (c' - c)) \<in> set (getNeighbors r c rows cols)"
    unfolding getNeighbors_def using v by force
  then show "q \<in> set (getNeighbors r c rows cols)" by (simp add: rc)
qed

lemma createBoard_exclusion:
  assumes "0 < cfgRows config" "0 < cfgCols config" "0 \<le> cfgMineCount config"
    and "isValidPosition erow ecol (cfgRows config) (cfgCols config)"
  shows "\<exists>s' board'. createBoard rnd s config (Some (erow, ecol)) = Some (s', board')
     \<and> map length (boards s' board') = replicate (nat (cfgRows config)) (nat (cfgCols config))
     \<and> int (countMines (boards s' board'))
          = min (cfgMineCount config)
              (cfgRows config * cfgCols config
                 - int (card (exclusionSet (cfgRows config) (cfgCols config) (Some (erow, ecol)))))
     \<and> (\<forall>(r, c) \<in> exclusionSet (cfgRows config) (cfgCols config) (Some (erow, ecol)).
           \<exists>cell. cellAt (boards s' board') r c = Some cell \<and> content cell \<noteq> Mine)"
proof -
  let ?rows = "cfgRows config" and ?cols = "cfgCols config" and ?m = "cfgMineCount config"
  let ?E = "exclusionSet ?rows ?cols (Some (erow, ecol))"
  define ps where "ps = generateMinePositions rnd ?rows ?cols ?m (Some (erow, ecol))"
  have nn: "0 \<le> ?rows" "0 \<le> ?cols" using assms(1,2) by simp_all
  note gp = generateMinePositions_properties[OF nn assms(3), of rnd "Some (erow, ecol)", folded ps_def]
  have valid: "isValidPosition r c ?rows ?cols" if "(r, c) \<in> set ps" for r c
    using gp(3) that by auto
  have notE: "(r, c) \<notin> set ps" if "(r, c) \<in> ?E" for r c
    using gp(3) that by auto
  have lenps: "int (length ps) = min ?m (?rows * ?cols - int (card ?E))"
    using gp(1) exclusionSet_fits[OF nn assms(4)] assms(3) by simp
  from createBoardWithMines_result[of ps ?rows ?cols s] valid obtain s' g where
    res: "createBoardWithMines s ?rows ?cols ps = Some (s', nextRef s + 2)"
    and g: "boards s' (nextRef s + 2) = g"
    and shape: "map length g = replicate (nat ?rows) (nat ?cols)"
    and mines: "\<forall>i < nat ?rows. \<forall>j < nat ?cols. (content (g ! i ! j) = Mine) = ((int i, int j) \<in> set ps)"
    by blast
  have cnt: "countMines g = length ps"
    using shape mines gp(2) valid by (rule countMines_positions)
  have safe: "\<exists>cell. cellAt g r c = Some cell \<and> content cell \<noteq> Mine" if rc: "(r, c) \<in> ?E" for r c
  proof -
    have v: "isValidPosition r c ?rows ?cols" using assms(4) rc by (rule exclusionSet_valid)
    then have inb: "0 \<le> r" "0 \<le> c" "nat r < nat ?rows" "nat c < nat ?cols"
      by (simp_all add: isValidPosition_def)
    have len: "length g = nat ?rows" using shape by (metis length_map length_replicate)
    have "map length g ! nat r = replicate (nat ?rows) (nat ?cols) ! nat r" using shape by simp
    then have rowlen: "length (g ! nat r) = nat ?cols" using inb len by simp
    have "cellAt g r c = Some (g ! nat r ! nat c)"
      using inb len rowlen by (simp add: cellAt_def)
    moreover have "content (g ! nat r ! nat c) \<noteq> Mine"
      using mines inb notE[OF rc] by simp
    ultimately show ?thesis by blast
  qed
  show ?thesis
  proof (intro exI conjI)
    show "createBoard rnd s config (Some (erow, ecol)) = Some (s', nextRef s + 2)"
      unfolding createBoard_eq using res by (simp add: ps_def)
    show "map length (boards s' (nextRef s + 2)) = replicate (nat ?rows) (nat ?cols)"
      unfolding g by (rule shape)
    show "int (countMines (boards s' (nextRef s + 2))) = min ?m (?rows * ?cols - int (card ?E))"
      unfolding g cnt by (rule lenps)
    show "\<forall>(r, c) \<in> ?E. \<exists>cell. cellAt (boards s' (nextRef s + 2)) r c = Some cell \<and> content cell \<noteq> Mine"
      unfolding g using safe by blast
  qed
qed

lemma exclusionSet_safeZone:
  "exclusionSet rows cols (Some (erow, ecol)) = safeZone rows cols (erow, ecol)"
  by (simp add: exclusionSet_def safeZone_def getNeighbors_set)

text \<open>
  Claim C3. For a configuration with \<open>rows > 0\<close>, \<open>cols > 0\<close>, \<open>mineCount \<ge> 0\<close> and a valid
  \<open>excludePosition\<close>, \<open>createBoard\<close> returns a board of \<open>rows\<close> by \<open>cols\<close> cells with exactly
  \<open>min mineCount (rows * cols - |safeZone|)\<close> mine cells, and no cell of the safe zone is a
  mine. The safe zone is \<open>excludePosition\<close> together with the positions of the board that
  differ from it by at most one in the row and in the column.
\<close>

theorem createBoard_mines:
  assumes "0 < cfgRows config" "0 < cfgCols config" "0 \<le> cfgMineCount config"
    and "isValidPosition erow ecol (cfgRows config) (cfgCols config)"
  shows "\<exists>s' board'. createBoard rnd s config (Some (erow, ecol)) = Some (s', board')
     \<and> map length (boards s' board') = replicate (nat (cfgRows config)) (nat (cfgCols config))
     \<and> int (countMines (boards s' board'))
          = min (cfgMineCount config)
              (cfgRows config * cfgCols config
                 - int (card (safeZone (cfgRows config) (cfgCols config) (erow, ecol))))
     \<and> (\<forall>(r, c) \<in> safeZone (cfgRows config) (cfgCols config) (erow, ecol).
           \<exists>cell. cellAt (boards s' board') r c = Some cell \<and> content cell \<noteq> Mine)"
  using createBoard_exclusion[OF assms, of rnd s] unfolding exclusionSet_safeZone .

theorem createBoard_mines_witness:
  "\<exists>s' board'.
     createBoard halfSource (storeOf []) \<lparr>cfgRows = 10, cfgCols = 10, cfgMineCount = 15\<rparr> (Some (2, 2))
       = Some (s', board')
     \<and> countMines (boards s' board') = 15
     \<and> (\<exists>cell. cellAt (boards s' board') 2 2 = Some cell \<and> content cell \<noteq> Mine)
     \<and> (\<exists>cell. cellAt (boards s' board') 3 1 = Some cell \<and> content cell \<noteq> Mine)
     \<and> (\<exists>cell. cellAt (boards s' board') 1 3 = Some cell \<and> content cell \<noteq> Mine)"
proof -
  let ?cfg = "\<lparr>cfgRows = 10, cfgCols = 10, cfgMineCount = 15\<rparr>"
  have h: "0 < cfgRows ?cfg" "0 < cfgCols ?cfg" "0 \<le> cfgMineCount ?cfg"
    "isValidPosition 2 2 (cfgRows ?cfg) (cfgCols ?cfg)"
    by (simp_all add: isValidPosition_def)
  have c: "card (safeZone 10 10 (2, 2)) = 9"
    unfolding exclusionSet_safeZone[symmetric] exclusionSet_card by code_simp
  have m: "(2, 2) \<in> safeZone 10 10 (2, 2)" "(3, 1) \<in> safeZone 10 10 (2, 2)"
    "(1, 3) \<in> safeZone 10 10 (2, 2)"
    by (simp_all add: safeZone_def adjacent_def isValidPosition_def)
  from createBoard_mines[OF h, of halfSource "storeOf []"] obtain s' board' where
    r: "createBoard halfSource (storeOf []) ?cfg (Some (2, 2)) = Some (s', board')"
    and n: "int (countMines (boards s' board')) = min 15 (10 * 10 - int (card (safeZone 10 10 (2, 2))))"
    and safe: "\<forall>(r, c) \<in> safeZone 10 10 (2, 2).
           \<exists>cell. cellAt (boards s' board') r c = Some cell \<and> content cell \<noteq> Mine"
    by auto
  from n c have k: "countMines (boards s' board') = 15" by simp
  from safe m(1) have s1: "\<exists>cell. cellAt (boards s' board') 2 2 = Some cell \<and> content cell \<noteq> Mine"
    by fast
  from safe m(2) have s2: "\<exists>cell. cellAt (boards s' board') 3 1 = Some cell \<and> content cell \<noteq> Mine"
    by fast
  from safe m(3) have s3: "\<exists>cell. cellAt (boards s' board') 1 3 = Some cell \<and> content cell \<noteq> Mine"
    by fast
  from r k s1 s2 s3 show ?thesis by blast
qed

section \<open>The flood fill\<close>







































end
